theory Spec2Isabelle
  imports Main
begin

section \<open>Python string primitives used by \<open>app.py\<close>\<close>

text \<open>
  A Python \<open>str\<close> is modelled as a \<open>string\<close> whose characters are the code points
  below 256 (ASCII and Latin-1); code points from 256 on are outside the alphabet of the
  model. The character classes below are the restrictions of Python's classes to that range.
\<close>

abbreviation LF :: char where "LF \<equiv> CHR 0x0A"
abbreviation CR :: char where "CR \<equiv> CHR 0x0D"

definition is_space :: "char \<Rightarrow> bool" where
  \<comment> \<open>\<open>str.isspace\<close>, also the class \<open>\s\<close> of \<open>re\<close> on a \<open>str\<close> pattern:
      TAB, LF, VT, FF, CR, FS, GS, RS, US, space, NEL, NBSP.\<close>
  "is_space c = (c \<in> set [CHR 0x09, CHR 0x0A, CHR 0x0B, CHR 0x0C, CHR 0x0D,
                           CHR 0x1C, CHR 0x1D, CHR 0x1E, CHR 0x1F, CHR 0x20,
                           CHR 0x85, CHR 0xA0])"

definition is_linebreak :: "char \<Rightarrow> bool" where
  \<comment> \<open>the line boundaries of \<open>str.splitlines\<close>: LF, VT, FF, CR, FS, GS, RS, NEL.\<close>
  "is_linebreak c = (c \<in> set [CHR 0x0A, CHR 0x0B, CHR 0x0C, CHR 0x0D,
                               CHR 0x1C, CHR 0x1D, CHR 0x1E, CHR 0x85])"

definition lstrip :: "string \<Rightarrow> string" where
  "lstrip s = dropWhile is_space s"

definition rstrip :: "string \<Rightarrow> string" where
  "rstrip s = rev (dropWhile is_space (rev s))"

definition strip :: "string \<Rightarrow> string" where
  \<comment> \<open>\<open>s.strip()\<close>\<close>
  "strip s = rstrip (lstrip s)"

definition startswith :: "string \<Rightarrow> string \<Rightarrow> bool" where
  \<comment> \<open>\<open>s.startswith(p)\<close>\<close>
  "startswith s p = (take (length p) s = p)"

definition endswith :: "string \<Rightarrow> string \<Rightarrow> bool" where
  \<comment> \<open>\<open>s.endswith(p)\<close>\<close>
  "endswith s p = startswith (rev s) (rev p)"

definition is_digit :: "char \<Rightarrow> bool" where
  \<comment> \<open>the decimal digits \<open>0\<close> to \<open>9\<close>: the class \<open>[0-9]\<close> of \<open>re\<close>, and below 256
      the digits that \<open>int\<close> accepts\<close>
  "is_digit c = (48 \<le> (of_char c :: nat) \<and> (of_char c :: nat) \<le> 57)"

text \<open>The exceptions that the modelled code can raise.\<close>

datatype py_exception = ValueError | OSError

definition max_str_digits :: nat where
  \<comment> \<open>\<open>sys.int_max_str_digits\<close>, at its default: \<open>int\<close> raises \<open>ValueError\<close> on a
      decimal string of more digits\<close>
  "max_str_digits = 4300"

function replace_scan :: "string \<Rightarrow> string \<Rightarrow> string \<Rightarrow> string" where
  "replace_scan [] old new = []"
| "replace_scan (c # cs) old new =
     (if old \<noteq> [] \<and> startswith (c # cs) old
      then new @ replace_scan (drop (length old) (c # cs)) old new
      else c # replace_scan cs old new)"
  by pat_completeness auto
termination
  by (relation "measure (\<lambda>(s, old, new). length s)") auto

definition replace :: "string \<Rightarrow> string \<Rightarrow> string \<Rightarrow> string" where
  \<comment> \<open>\<open>s.replace(old, new)\<close>: the occurrences of \<open>old\<close> are replaced from left to
      right, without overlap; an empty \<open>old\<close> matches before every character and at
      the end.\<close>
  "replace s old new =
     (if old = [] then new @ concat (map (\<lambda>c. c # new) s) else replace_scan s old new)"

fun splitlines_acc :: "string \<Rightarrow> string \<Rightarrow> string list" where
  "splitlines_acc acc [] = (if acc = [] then [] else [acc])"
| "splitlines_acc acc (c # cs) =
     (if c = CR then
        (case cs of
           [] \<Rightarrow> [acc]
         | d # ds \<Rightarrow> if d = LF then acc # splitlines_acc [] ds
                    else acc # splitlines_acc [] (d # ds))
      else if is_linebreak c then acc # splitlines_acc [] cs
      else splitlines_acc (acc @ [c]) cs)"

definition splitlines :: "string \<Rightarrow> string list" where
  \<comment> \<open>\<open>s.splitlines()\<close>: the boundaries are dropped, CR LF is one boundary, and a
      boundary at the very end opens no further line.\<close>
  "splitlines s = splitlines_acc [] s"

fun join_lines :: "string list \<Rightarrow> string" where
  \<comment> \<open>\<open>"\n".join(ls)\<close>\<close>
  "join_lines [] = []"
| "join_lines [l] = l"
| "join_lines (l # ls) = l @ [LF] @ join_lines ls"

section \<open>Insertion-ordered dictionaries\<close>

text \<open>
  A Python \<open>dict\<close> keeps its keys in insertion order, and assigning to a key that is
  already there keeps the key's position. \<open>_write_env_values\<close> writes the values in
  that order, so the dictionary is an association list with this update.
\<close>

fun dict_set :: "('k \<times> 'v) list \<Rightarrow> 'k \<Rightarrow> 'v \<Rightarrow> ('k \<times> 'v) list" where
  "dict_set [] k v = [(k, v)]"
| "dict_set ((k', v') # m) k v =
     (if k' = k then (k, v) # m else (k', v') # dict_set m k v)"

section \<open>The credential file: \<open>_write_env_values\<close>\<close>

definition is_key_line :: "string \<Rightarrow> bool" where
  \<comment> \<open>\<open>'=' in line and not line.strip().startswith('#')\<close>\<close>
  "is_key_line line = (CHR ''='' \<in> set line \<and> \<not> startswith (strip line) ''#'')"

definition line_key :: "string \<Rightarrow> string" where
  \<comment> \<open>\<open>line.split('=', 1)[0].strip()\<close>\<close>
  "line_key line = strip (takeWhile (\<lambda>c. c \<noteq> CHR ''='') line)"

fun scan_lines :: "(string \<times> string) list \<Rightarrow> string list \<Rightarrow> (string \<times> string) list" where
  \<comment> \<open>the first loop: \<open>mapping[k] = line\<close> for every line that holds a key\<close>
  "scan_lines m [] = m"
| "scan_lines m (line # ls) =
     (if is_key_line line then scan_lines (dict_set m (line_key line) line) ls
      else scan_lines m ls)"

definition safe_value :: "string \<Rightarrow> string" where
  \<comment> \<open>\<open>v.replace('\n', '').replace('\r', '')\<close>\<close>
  "safe_value v = replace (replace v [LF] []) [CR] []"

fun apply_updates :: "(string \<times> string) list \<Rightarrow> (string \<times> string) list \<Rightarrow> (string \<times> string) list" where
  \<comment> \<open>the second loop: \<open>mapping[k] = f"{k}={safe_v}"\<close> for every item of \<open>updates\<close>\<close>
  "apply_updates m [] = m"
| "apply_updates m ((k, v) # us) = apply_updates (dict_set m k (k @ ''='' @ safe_value v)) us"

definition env_mapping :: "string option \<Rightarrow> (string \<times> string) list \<Rightarrow> (string \<times> string) list" where
  \<comment> \<open>\<open>mapping\<close> after both loops; the file is \<open>None\<close> when \<open>.env\<close> does not exist,
      else the text that \<open>f.read()\<close> returns.\<close>
  "env_mapping file updates =
     apply_updates
       (scan_lines [] (case file of None \<Rightarrow> [] | Some text \<Rightarrow> splitlines text))
       updates"

definition write_env_values :: "string option \<Rightarrow> (string \<times> string) list \<Rightarrow> string" where
  \<comment> \<open>\<open>_write_env_values(updates)\<close>: the text written to \<open>.env\<close>. \<open>updates\<close> lists
      the items of the dictionary in its order.\<close>
  "write_env_values file updates =
     (let new_lines = map snd (env_mapping file updates)
      in join_lines new_lines @ (if new_lines \<noteq> [] then [LF] else []))"

section \<open>HTML to plain text: \<open>html_to_plain_text\<close>\<close>

definition match_close_p :: "string \<Rightarrow> string option" where
  \<comment> \<open>a match of \<open>r'</p\s*>'\<close> under \<open>re.IGNORECASE\<close> at the head of the text: what
      follows the match. The greedy \<open>\s*\<close> never has to give a character back, since
      \<open>>\<close> is no whitespace.\<close>
  "match_close_p s =
     (case s of
        a # b # p # r \<Rightarrow>
          if a = CHR ''<'' \<and> b = CHR ''/'' \<and> (p = CHR ''p'' \<or> p = CHR ''P'')
          then (case dropWhile is_space r of
                  [] \<Rightarrow> None
                | g # rest \<Rightarrow> if g = CHR ''>'' then Some rest else None)
          else None
      | _ \<Rightarrow> None)"

function sub_close_p :: "string \<Rightarrow> string" where
  \<comment> \<open>\<open>re.sub(r'</p\s*>', '\n\n', text, flags=re.IGNORECASE)\<close>\<close>
  "sub_close_p [] = []"
| "sub_close_p (c # cs) =
     (case match_close_p (c # cs) of
        Some rest \<Rightarrow> [LF, LF] @ sub_close_p rest
      | None \<Rightarrow> c # sub_close_p cs)"
  by pat_completeness auto
termination
proof (relation "measure length")
  fix c cs rest
  assume m: "match_close_p (c # cs) = Some rest"
  then obtain r where r: "dropWhile is_space r = CHR ''>'' # rest" and "length r < length (c # cs)"
    by (auto simp: match_close_p_def split: list.splits if_splits)
  moreover have "length (dropWhile is_space r) \<le> length r"
    by (rule length_dropWhile_le)
  ultimately show "(rest, c # cs) \<in> measure length"
    by simp
qed simp_all

definition match_tag :: "string \<Rightarrow> string option" where
  \<comment> \<open>a match of \<open>r'<[^>]+>'\<close> at the head of the text: what follows the match. The
      greedy class runs to the first \<open>>\<close>; giving characters back cannot help, since
      none of them is \<open>>\<close>.\<close>
  "match_tag s =
     (case s of
        [] \<Rightarrow> None
      | c # cs \<Rightarrow>
          if c = CHR ''<'' \<and> takeWhile (\<lambda>x. x \<noteq> CHR ''>'') cs \<noteq> []
             \<and> dropWhile (\<lambda>x. x \<noteq> CHR ''>'') cs \<noteq> []
          then Some (tl (dropWhile (\<lambda>x. x \<noteq> CHR ''>'') cs))
          else None)"

function strip_tags :: "string \<Rightarrow> string" where
  \<comment> \<open>\<open>re.sub(r'<[^>]+>', '', text)\<close>\<close>
  "strip_tags [] = []"
| "strip_tags (c # cs) =
     (case match_tag (c # cs) of
        Some rest \<Rightarrow> strip_tags rest
      | None \<Rightarrow> c # strip_tags cs)"
  by pat_completeness auto
termination
proof (relation "measure length")
  fix c cs rest
  assume m: "match_tag (c # cs) = Some rest"
  then have "rest = tl (dropWhile (\<lambda>x. x \<noteq> CHR ''>'') cs)"
    by (auto simp: match_tag_def split: if_splits)
  moreover have "length (dropWhile (\<lambda>x. x \<noteq> CHR ''>'') cs) \<le> length cs"
    by (rule length_dropWhile_le)
  ultimately show "(rest, c # cs) \<in> measure length"
    by simp
qed simp_all

fun long_decimal_ref :: "string \<Rightarrow> bool" where
  \<comment> \<open>the text holds \<open>&#\<close> followed by more than \<open>max_str_digits\<close> decimal digits: a
      match of the alternative \<open>#[0-9]+;?\<close> of \<open>_charref\<close> on which
      \<open>_replace_charref\<close> calls \<open>int\<close> and \<open>int\<close> raises. No match of \<open>_charref\<close>
      runs over a later \<open>&\<close>, so every \<open>&#\<close> before digits starts such a match.\<close>
  "long_decimal_ref [] = False"
| "long_decimal_ref (c # cs) =
     ((c = CHR ''&'' \<and>
       (case cs of
          [] \<Rightarrow> False
        | h # ds \<Rightarrow> h = CHR ''#'' \<and> max_str_digits < length (takeWhile is_digit ds)))
      \<or> long_decimal_ref cs)"

definition unescape :: "(string \<Rightarrow> string) \<Rightarrow> string \<Rightarrow> py_exception + string" where
  \<comment> \<open>\<open>html.unescape(s)\<close> of the standard library:
      \<open>if '&' not in s: return s\<close>, else \<open>_charref.sub(_replace_charref, s)\<close>. The
      substitution raises \<open>ValueError\<close> on a decimal reference that \<open>int\<close> refuses
      (the hexadecimal ones have no limit) and nowhere else; what it returns otherwise,
      with the library's table of entities, is the parameter.\<close>
  "unescape charref_sub s =
     (if CHR ''&'' \<notin> set s then Inr s
      else if long_decimal_ref s then Inl ValueError
      else Inr (charref_sub s))"

definition html_to_plain_text :: "(string \<Rightarrow> string) \<Rightarrow> string \<Rightarrow> py_exception + string" where
  \<comment> \<open>\<open>Inl\<close> is the exception that leaves the function\<close>
  "html_to_plain_text charref_sub v =
     (if v = [] then Inr []
      else
        let text = replace (replace (replace v ''<br>'' [LF]) ''<br/>'' [LF]) ''<br />'' [LF];
            text = sub_close_p text;
            text = strip_tags text
        in (case unescape charref_sub text of
              Inl exc \<Rightarrow> Inl exc
            | Inr text \<Rightarrow> Inr (strip text)))"

section \<open>Smaller helpers\<close>

definition lower_char :: "char \<Rightarrow> char" where
  \<comment> \<open>\<open>str.lower\<close> on one code point below 256: A to Z, and the Latin-1 capitals
      0xC0 to 0xDE but the multiplication sign 0xD7.\<close>
  "lower_char c =
     (let n = of_char c :: nat
      in if (65 \<le> n \<and> n \<le> 90) \<or> (192 \<le> n \<and> n \<le> 222 \<and> n \<noteq> 215)
         then char_of (n + 32) else c)"

definition lower :: "string \<Rightarrow> string" where
  "lower s = map lower_char s"

definition get_env_default :: "(string \<rightharpoonup> string) \<Rightarrow> string \<Rightarrow> string \<Rightarrow> string" where
  \<comment> \<open>\<open>_get_env_default(key, fallback)\<close> on \<open>os.environ\<close>\<close>
  "get_env_default environ key fallback =
     (case environ key of Some val \<Rightarrow> val | None \<Rightarrow> fallback)"

definition or_else :: "string \<Rightarrow> string \<Rightarrow> string" where
  \<comment> \<open>Python's \<open>a or b\<close> on two strings: \<open>a\<close> unless it is empty\<close>
  "or_else a b = (if a \<noteq> [] then a else b)"

definition get_or :: "string option \<Rightarrow> string \<Rightarrow> string" where
  \<comment> \<open>\<open>d.get(key) or b\<close>: the value unless the key is missing or the value is empty\<close>
  "get_or a b = (case a of None \<Rightarrow> b | Some x \<Rightarrow> or_else x b)"

fun digits_ok :: "string \<Rightarrow> bool" where
  \<comment> \<open>digits, with single underscores between digits only\<close>
  "digits_ok [] = False"
| "digits_ok [c] = is_digit c"
| "digits_ok (c # d # cs) =
     (is_digit c \<and> (if d = CHR ''_'' then digits_ok cs else digits_ok (d # cs)))"

definition digits_value :: "string \<Rightarrow> int" where
  "digits_value s =
     foldl (\<lambda>acc c. 10 * acc + (int (of_char c) - 48)) 0 (filter is_digit s)"

definition is_int_space :: "char \<Rightarrow> bool" where
  \<comment> \<open>the whitespace that \<open>int\<close> skips around the number: TAB, LF, VT, FF, CR, space,
      NEL, NBSP; not FS, GS, RS, US\<close>
  "is_int_space c = (c \<in> set [CHR 0x09, CHR 0x0A, CHR 0x0B, CHR 0x0C, CHR 0x0D, CHR 0x20,
                               CHR 0x85, CHR 0xA0])"

definition py_int :: "string \<Rightarrow> py_exception + int" where
  \<comment> \<open>\<open>int(s)\<close> on a string, base 10: surrounding whitespace, an optional sign, then at
      most \<open>max_str_digits\<close> digits; anything else raises \<open>ValueError\<close>.\<close>
  "py_int s =
     (let t = rev (dropWhile is_int_space (rev (dropWhile is_int_space s)));
          body = (if startswith t ''-'' \<or> startswith t ''+'' then tl t else t)
      in if t \<noteq> [] \<and> digits_ok body \<and> length (filter is_digit body) \<le> max_str_digits
         then Inr (if startswith t ''-'' then - digits_value body else digits_value body)
         else Inl ValueError)"

function str_nat :: "nat \<Rightarrow> string" where
  "str_nat n = (if n < 10 then [char_of (48 + n)] else str_nat (n div 10) @ [char_of (48 + n mod 10)])"
  by pat_completeness auto
termination
  by (relation "measure id") auto

definition str_int :: "int \<Rightarrow> string" where
  \<comment> \<open>\<open>str(n)\<close> of an integer\<close>
  "str_int n = (if n < 0 then ''-'' @ str_nat (nat (- n)) else str_nat (nat n))"

section \<open>Data model of the workflow\<close>

record recipient =
  rec_email :: string
  rec_name :: string
  rec_subject :: "string option"

text \<open>
  A \<open>DataFrame\<close> as the handlers use it: the column labels, and every row as the map from
  a label \<open>c\<close> to \<open>str(row[c])\<close>.
\<close>

record dataframe =
  df_columns :: "string list"
  df_rows :: "(string \<Rightarrow> string) list"

text \<open>The keys of the Flask session; a key that was never set is \<open>None\<close>.\<close>

record session =
  s_upload_path :: "string option"
  s_message_template :: "string option"
  s_default_subject :: "string option"
  s_columns :: "string list option"
  s_mapped_records :: "recipient list option"
  s_email_col :: "string option"
  s_name_col :: "string option"
  s_subject_col :: "string option"

record sample =
  smp_to :: string
  smp_subject :: string
  smp_body :: string

record smtp_defaults =
  d_smtp_email :: string
  d_smtp_app_password :: string
  d_from_name :: string
  d_smtp_host :: string
  d_smtp_port :: string

record dispatch_result =
  res_to :: string
  res_status :: string
  res_detail :: string

record message =
  msg_to :: string
  msg_subject :: string
  msg_from_name :: string
  msg_from_addr :: string
  msg_body :: string
  msg_parts :: "(string \<times> string) list"

text \<open>
  What a handler returns: the redirect to \<open>index\<close> with the message it flashed, or one
  of the two rendered views with the values handed to the template.
\<close>

datatype response =
  Redirect_index string
| Confirm_view "sample list" nat smtp_defaults
| Result_view "dispatch_result list"

text \<open>
  The effects of the dispatch loop, in the order they happen: the send step for the
  message of the recipient numbered \<open>idx\<close>, and \<open>time.sleep(0.5)\<close>, in
  milliseconds.
\<close>

datatype event = Sendmail nat message | Sleep_ms nat nat

text \<open>
  The collaborators outside \<open>app.py\<close>, as parameters: pandas' readers and jinja2's
  rendering return the text of the exception they raise (\<open>Inl\<close>) or their value;
  \<open>w_signature\<close> is the reading of \<open>templates/_signature.html\<close>;
  \<open>w_connect\<close> is \<open>smtplib.SMTP(host, port)\<close> with \<open>ehlo\<close>, \<open>starttls\<close> and
  \<open>login\<close>; \<open>w_sendmail\<close> is the rest of the \<open>try\<close> block once the body is
  rendered (the prints, the construction of the MIME message and \<open>server.sendmail\<close>),
  on the state of the connection, and returns the text of the exception when one is
  raised. \<open>time.sleep\<close> raises no \<open>Exception\<close>. \<open>w_env_error\<close> is the exception
  that opening \<open>.env\<close> raises in \<open>_write_env_values\<close>, if any; the file is then left
  as it was.
\<close>

record 'srv world =
  w_read_csv :: "string \<Rightarrow> string + dataframe"
  w_read_excel :: "string \<Rightarrow> string + dataframe"
  w_render :: "string \<Rightarrow> string \<Rightarrow> string \<Rightarrow> string + string"
  w_signature :: "string + string"
  w_charref_sub :: "string \<Rightarrow> string"
  w_secure_filename :: "string \<Rightarrow> string"
  w_connect :: "string \<Rightarrow> int \<Rightarrow> string \<Rightarrow> string \<Rightarrow> string + 'srv"
  w_sendmail :: "'srv \<Rightarrow> message \<Rightarrow> string option \<times> 'srv"
  w_env_error :: "py_exception option"

text \<open>The state a request can change besides the session: \<open>os.environ\<close> and \<open>.env\<close>.\<close>

record store =
  st_environ :: "string \<rightharpoonup> string"
  st_env_file :: "string option"

text \<open>
  The uploaded files of a Send request: the file name of each part and its content,
  \<open>None\<close> when reading it raises.
\<close>

record upload_files =
  f_attachments :: "(string \<times> string option) list"
  f_attachment :: "(string \<times> string option) option"

definition form_get :: "(string \<rightharpoonup> string) \<Rightarrow> string \<Rightarrow> string \<Rightarrow> string" where
  \<comment> \<open>\<open>request.form.get(key, default)\<close>\<close>
  "form_get form key dflt = (case form key of Some v \<Rightarrow> v | None \<Rightarrow> dflt)"

section \<open>The Map step: \<open>map_columns\<close>\<close>

definition read_table :: "'srv world \<Rightarrow> string \<Rightarrow> string + dataframe" where
  "read_table w path =
     (if endswith (lower path) ''.csv'' then w_read_csv w path else w_read_excel w path)"

definition col_missing :: "dataframe \<Rightarrow> string option \<Rightarrow> bool" where
  \<comment> \<open>\<open>not c or c not in df.columns\<close>\<close>
  "col_missing df c = (case c of None \<Rightarrow> True | Some x \<Rightarrow> x = [] \<or> x \<notin> set (df_columns df))"

definition build_record ::
  "dataframe \<Rightarrow> string \<Rightarrow> string \<Rightarrow> string option \<Rightarrow> (string \<Rightarrow> string) \<Rightarrow> recipient" where
  "build_record df ec nc sc row =
     \<lparr> rec_email = strip (row ec),
       rec_name = strip (row nc),
       rec_subject =
         (case sc of
            None \<Rightarrow> None
          | Some x \<Rightarrow> if x \<noteq> [] \<and> x \<in> set (df_columns df) then Some (strip (row x)) else None) \<rparr>"

definition render_sample :: "'srv world \<Rightarrow> string \<Rightarrow> string \<Rightarrow> recipient \<Rightarrow> sample" where
  "render_sample w template default_subject r =
     (case w_render w template (rec_name r) (rec_email r) of
        Inr body \<Rightarrow>
          \<lparr> smp_to = rec_email r,
            smp_subject = get_or (rec_subject r) default_subject,
            smp_body = body \<rparr>
      | Inl exc \<Rightarrow>
          \<lparr> smp_to = rec_email r,
            smp_subject = ''(error)'',
            smp_body = ''Error al renderizar: '' @ exc \<rparr>)"

definition prefill :: "(string \<rightharpoonup> string) \<Rightarrow> smtp_defaults" where
  \<comment> \<open>the dictionary \<open>smtp_defaults\<close>\<close>
  "prefill environ =
     \<lparr> d_smtp_email = get_env_default environ ''SMTP_EMAIL'' [],
       d_smtp_app_password = get_env_default environ ''SMTP_APP_PASSWORD'' ''dgjr jxdm dske dxos'',
       d_from_name = get_env_default environ ''SMTP_FROM_NAME'' ''Centro de Idiomas'',
       d_smtp_host = get_env_default environ ''SMTP_HOST'' ''smtp.gmail.com'',
       d_smtp_port = get_env_default environ ''SMTP_PORT'' ''587'' \<rparr>"

definition msg_expired :: string where
  "msg_expired = ''Sesi'' @ [CHR 0xF3] @ ''n expirada. Vuelve a subir el archivo.''"

definition msg_select :: string where
  "msg_select = ''Selecciona correctamente las columnas de correo y nombre.''"

definition map_columns ::
  "'srv world \<Rightarrow> store \<Rightarrow> (string \<rightharpoonup> string) \<Rightarrow> session \<Rightarrow> response \<times> session" where
  "map_columns w st form sess =
     (let email_col = form ''email_col'';
          name_col = form ''name_col'';
          subject_col = form ''subject_col''
      in case s_upload_path sess of
           None \<Rightarrow> (Redirect_index msg_expired, sess)
         | Some path \<Rightarrow>
             if path = [] then (Redirect_index msg_expired, sess)
             else
               (case read_table w path of
                  Inl exc \<Rightarrow> (Redirect_index (''No se pudo leer el archivo: '' @ exc), sess)
                | Inr df \<Rightarrow>
                    if filter (col_missing df) [email_col, name_col] \<noteq> []
                    then (Redirect_index msg_select, sess)
                    else
                      let records =
                            map (build_record df (the email_col) (the name_col) subject_col)
                              (df_rows df);
                          sess' = sess \<lparr> s_mapped_records := Some records,
                                         s_email_col := email_col,
                                         s_name_col := name_col,
                                         s_subject_col := Some (get_or subject_col []) \<rparr>;
                          template = (case s_message_template sess' of None \<Rightarrow> [] | Some t \<Rightarrow> t);
                          default_subject = (case s_default_subject sess' of None \<Rightarrow> [] | Some t \<Rightarrow> t)
                      in (Confirm_view
                            (map (render_sample w template default_subject) (take 5 records))
                            (length records)
                            (prefill (st_environ st)),
                          sess')))"

section \<open>The Send step: \<open>send_emails\<close>\<close>

text \<open>The variables of the handler that the loop over the recipients reads.\<close>

record dispatch_ctx =
  c_message_template :: string
  c_default_subject :: string
  c_signature_text :: string
  c_from_name :: string
  c_smtp_email :: string
  c_attachments :: "(string \<times> string) list"

definition msg_empty_email :: string where
  "msg_empty_email = ''Correo vac'' @ [CHR 0xED] @ ''o''"

definition error_result :: "string \<Rightarrow> string \<Rightarrow> dispatch_result" where
  "error_result to_addr detail =
     \<lparr> res_to = to_addr, res_status = ''error'', res_detail = detail \<rparr>"

definition sent_result :: "string \<Rightarrow> dispatch_result" where
  "sent_result to_addr = \<lparr> res_to = to_addr, res_status = ''enviado'', res_detail = [] \<rparr>"

definition pdf_parts :: "(string \<times> string) list \<Rightarrow> (string \<times> string) list" where
  \<comment> \<open>the inner loop over \<open>attachments\<close>: the parts attached to a message\<close>
  "pdf_parts atts =
     filter (\<lambda>(att_name, att_bytes). att_bytes \<noteq> [] \<and> endswith (lower att_name) ''.pdf'')
       (map (\<lambda>(n, b). (or_else n ''adjunto.pdf'', b)) atts)"

definition subject_of :: "dispatch_ctx \<Rightarrow> recipient \<Rightarrow> string" where
  \<comment> \<open>\<open>rec.get('subject') or default_subject or 'Comunicado'\<close>\<close>
  "subject_of ctx r = or_else (get_or (rec_subject r) (c_default_subject ctx)) ''Comunicado''"

definition build_message :: "dispatch_ctx \<Rightarrow> recipient \<Rightarrow> string \<Rightarrow> string \<Rightarrow> message" where
  "build_message ctx r to_addr body =
     \<lparr> msg_to = to_addr,
       msg_subject = subject_of ctx r,
       msg_from_name = c_from_name ctx,
       msg_from_addr = c_smtp_email ctx,
       msg_body =
         (if c_signature_text ctx \<noteq> [] then body @ [LF, LF] @ c_signature_text ctx else body),
       msg_parts = pdf_parts (c_attachments ctx) \<rparr>"

definition send_one ::
  "'srv world \<Rightarrow> dispatch_ctx \<Rightarrow> nat \<Rightarrow> 'srv \<Rightarrow> recipient
     \<Rightarrow> dispatch_result \<times> event list \<times> 'srv" where
  \<comment> \<open>the body of the loop for the recipient numbered \<open>idx\<close>: the result it appends,
      its effects, and the state of the connection after it\<close>
  "send_one w ctx idx srv r =
     (let to_addr = strip (rec_email r)
      in if to_addr = [] then (error_result to_addr msg_empty_email, [], srv)
         else
           (case w_render w (c_message_template ctx) (rec_name r) to_addr of
              Inl exc \<Rightarrow> (error_result to_addr exc, [], srv)
            | Inr body \<Rightarrow>
                let msg = build_message ctx r to_addr body
                in (case w_sendmail w srv msg of
                      (Some exc, srv') \<Rightarrow> (error_result to_addr exc, [Sendmail idx msg], srv')
                    | (None, srv') \<Rightarrow>
                        (sent_result to_addr, [Sendmail idx msg, Sleep_ms idx 500], srv'))))"

fun send_loop ::
  "'srv world \<Rightarrow> dispatch_ctx \<Rightarrow> nat \<Rightarrow> 'srv \<Rightarrow> recipient list
     \<Rightarrow> dispatch_result list \<times> event list \<times> 'srv" where
  \<comment> \<open>\<open>for idx, rec in enumerate(records, start=idx)\<close>\<close>
  "send_loop w ctx idx srv [] = ([], [], srv)"
| "send_loop w ctx idx srv (r # rs) =
     (case send_one w ctx idx srv r of
        (res, evs, srv') \<Rightarrow>
          (case send_loop w ctx (Suc idx) srv' rs of
             (results, trace, srv'') \<Rightarrow> (res # results, evs @ trace, srv'')))"

definition collect_attachments :: "'srv world \<Rightarrow> upload_files \<Rightarrow> (string \<times> string) list" where
  \<comment> \<open>the parts named \<open>attachments\<close>, then the single part named \<open>attachment\<close>: a part
      with an empty file name is skipped, and so is one whose reading raises\<close>
  "collect_attachments w files =
     (let keep = (\<lambda>(filename, content).
                    if filename \<noteq> [] then
                      (case content of
                         Some bytes \<Rightarrow> [(w_secure_filename w filename, bytes)]
                       | None \<Rightarrow> [])
                    else [])
      in concat (map keep (f_attachments files))
         @ (case f_attachment files of None \<Rightarrow> [] | Some f \<Rightarrow> keep f))"

definition fallback_signature :: string where
  "fallback_signature =
     ''Coordinaci'' @ [CHR 0xF3] @ ''n de Matr'' @ [CHR 0xED] @ ''cula'' @ [LF]
     @ ''Centro de Idiomas de la Universidad Nacional Mayor de San Marcos'' @ [LF]
     @ ''Correo: personalcontratado31.flch@unmsm.edu.pe'' @ [LF]
     @ ''Av. Universitaria, Calle Germ'' @ [CHR 0xE1] @ ''n Am'' @ [CHR 0xE9] @ ''zaga N''
     @ [CHR 0xBA] @ '' 375. Ciudad Universitaria, Lima''"

definition load_signature :: "'srv world \<Rightarrow> string" where
  "load_signature w =
     (case w_signature w of
        Inr content \<Rightarrow>
          (case html_to_plain_text (w_charref_sub w) (strip content) of
             Inr text \<Rightarrow> text
           | Inl exc \<Rightarrow> fallback_signature)
      | Inl exc \<Rightarrow> fallback_signature)"

fun refresh_environ ::
  "(string \<rightharpoonup> string) \<Rightarrow> (string \<times> string) list
     \<Rightarrow> py_exception option \<times> (string \<rightharpoonup> string)" where
  \<comment> \<open>the assignments \<open>os.environ[key] = value\<close>, in order: an assignment raises
      \<open>ValueError\<close> on a value that holds a NUL character, and those before it stay\<close>
  "refresh_environ environ [] = (None, environ)"
| "refresh_environ environ ((key, val) # rest) =
     (if CHR 0x00 \<in> set val then (Some ValueError, environ)
      else refresh_environ (environ(key \<mapsto> val)) rest)"

definition remember_credentials ::
  "'srv world \<Rightarrow> store \<Rightarrow> string \<Rightarrow> string \<Rightarrow> string \<Rightarrow> string \<Rightarrow> int
     \<Rightarrow> py_exception option \<times> store" where
  \<comment> \<open>the branch \<open>if remember\<close>: \<open>.env\<close> is rewritten, then \<open>os.environ\<close>
      refreshed; the exception that leaves the branch, if any, and the state it leaves\<close>
  "remember_credentials w st smtp_email smtp_app_password from_name smtp_host smtp_port =
     (let updates = [(''SMTP_EMAIL'', smtp_email),
                     (''SMTP_APP_PASSWORD'', smtp_app_password),
                     (''SMTP_FROM_NAME'', from_name),
                     (''SMTP_HOST'', smtp_host),
                     (''SMTP_PORT'', str_int smtp_port)]
      in case w_env_error w of
           Some exc \<Rightarrow> (Some exc, st)
         | None \<Rightarrow>
             (case refresh_environ (st_environ st) updates of
                (raised, environ) \<Rightarrow>
                  (raised,
                   \<lparr> st_environ = environ,
                     st_env_file = Some (write_env_values (st_env_file st) updates) \<rparr>)))"

definition msg_no_recipients :: string where
  "msg_no_recipients = ''No hay destinatarios. Vuelve a subir el archivo.''"

definition msg_credentials :: string where
  "msg_credentials =
     ''Debes ingresar el correo remitente y la contrase'' @ [CHR 0xF1]
     @ ''a de aplicaci'' @ [CHR 0xF3] @ ''n.''"

definition send_emails ::
  "'srv world \<Rightarrow> store \<Rightarrow> (string \<rightharpoonup> string) \<Rightarrow> upload_files \<Rightarrow> session
     \<Rightarrow> (py_exception + response) \<times> event list \<times> store" where
  \<comment> \<open>the handler of \<open>/send\<close>: the exception that leaves the handler (\<open>Inl\<close>) or
      its response (\<open>Inr\<close>), with the effects of the loop and the state after the
      request. \<open>server.quit()\<close>, whose failure is swallowed, leaves nothing in either.\<close>
  "send_emails w st form files sess =
     (let records = (case s_mapped_records sess of None \<Rightarrow> [] | Some rs \<Rightarrow> rs)
      in if records = [] then (Inr (Redirect_index msg_no_recipients), [], st)
         else
           let message_template = (case s_message_template sess of None \<Rightarrow> [] | Some t \<Rightarrow> t);
               default_subject = (case s_default_subject sess of None \<Rightarrow> [] | Some t \<Rightarrow> t);
               smtp_email = strip (form_get form ''smtp_email'' []);
               smtp_app_password = strip (form_get form ''smtp_app_password'' []);
               from_name = or_else (strip (form_get form ''from_name'' [])) ''Centro de Idiomas'';
               smtp_host = or_else (strip (form_get form ''smtp_host'' ''smtp.gmail.com''))
                                   ''smtp.gmail.com''
           in (case py_int (form_get form ''smtp_port'' ''587'') of
                 Inl exc \<Rightarrow> (Inl exc, [], st)
               | Inr smtp_port \<Rightarrow>
                   let remember = (form ''remember_credentials'' = Some ''on'');
                       attachments = collect_attachments w files
                   in if smtp_email = [] \<or> smtp_app_password = []
                      then (Inr (Redirect_index msg_credentials), [], st)
                      else
                        let signature_text = load_signature w
                        in (case w_connect w smtp_host smtp_port smtp_email smtp_app_password of
                              Inl exc \<Rightarrow>
                                (Inr (Redirect_index (''No se pudo conectar a SMTP: '' @ exc)), [], st)
                            | Inr server \<Rightarrow>
                                (case send_loop w
                                        \<lparr> c_message_template = message_template,
                                          c_default_subject = default_subject,
                                          c_signature_text = signature_text,
                                          c_from_name = from_name,
                                          c_smtp_email = smtp_email,
                                          c_attachments = attachments \<rparr>
                                        1 server records of
                                   (results, trace, server') \<Rightarrow>
                                     if remember
                                     then
                                       (case remember_credentials w st smtp_email
                                               smtp_app_password from_name smtp_host smtp_port of
                                          (Some exc, st') \<Rightarrow> (Inl exc, trace, st')
                                        | (None, st') \<Rightarrow> (Inr (Result_view results), trace, st'))
                                     else (Inr (Result_view results), trace, st)))))"

section \<open>A small concrete run\<close>

text \<open>
  Stand-ins for the collaborators, used to evaluate the handlers: a table of three rows
  whose second row has a blank address, a renderer that fails on an empty name, a
  connection that counts the messages it was handed and refuses one address.
\<close>

definition demo_row :: "string \<Rightarrow> string \<Rightarrow> string \<Rightarrow> string" where
  "demo_row mail nombre c = (if c = ''mail'' then mail else if c = ''nombre'' then nombre else [])"

definition demo_df :: dataframe where
  "demo_df =
     \<lparr> df_columns = [''mail'', ''nombre''],
       df_rows = [demo_row '' ana@unmsm.edu.pe '' ''Ana'',
                  demo_row ''  '' ''Luis'',
                  demo_row ''no@unmsm.edu.pe'' ''Eva''] \<rparr>"

definition demo_world :: "nat world" where
  "demo_world =
     \<lparr> w_read_csv = (\<lambda>path. Inr demo_df),
       w_read_excel = (\<lambda>path. Inl ''unreadable''),
       w_render = (\<lambda>template nm email.
                     if nm = [] then Inl ''render failed'' else Inr (template @ nm)),
       w_signature = Inl ''no such file'',
       w_charref_sub = (\<lambda>s. s),
       w_secure_filename = (\<lambda>s. s),
       w_connect = (\<lambda>host port email password. Inr 0),
       w_sendmail = (\<lambda>srv msg.
                       if msg_to msg = ''no@unmsm.edu.pe'' then (Some ''refused'', Suc srv)
                       else (None, Suc srv)),
       w_env_error = None \<rparr>"

definition demo_store :: store where
  "demo_store = \<lparr> st_environ = Map.empty, st_env_file = None \<rparr>"

definition demo_session :: session where
  \<comment> \<open>the session after Prepare, whose file was replaced since: the stored columns are
      those of the first upload\<close>
  "demo_session =
     \<lparr> s_upload_path = Some ''uploads/lista.csv'',
       s_message_template = Some ''Hola '',
       s_default_subject = Some ''Aviso'',
       s_columns = Some [''correo'', ''alumno''],
       s_mapped_records = None,
       s_email_col = None,
       s_name_col = None,
       s_subject_col = None \<rparr>"

definition demo_form :: "string \<rightharpoonup> string" where
  "demo_form = [''email_col'' \<mapsto> ''mail'', ''name_col'' \<mapsto> ''nombre'', ''subject_col'' \<mapsto> ''asunto'']"

definition demo_ctx :: dispatch_ctx where
  "demo_ctx =
     \<lparr> c_message_template = ''Hola '',
       c_default_subject = [],
       c_signature_text = [],
       c_from_name = ''Centro de Idiomas'',
       c_smtp_email = ''idiomas@unmsm.edu.pe'',
       c_attachments = [] \<rparr>"

definition demo_records :: "recipient list" where
  "demo_records =
     [\<lparr> rec_email = ''ana@unmsm.edu.pe'', rec_name = ''Ana'', rec_subject = Some ''Notas'' \<rparr>,
      \<lparr> rec_email = [], rec_name = ''Luis'', rec_subject = None \<rparr>,
      \<lparr> rec_email = ''no@unmsm.edu.pe'', rec_name = ''Eva'', rec_subject = Some [] \<rparr>,
      \<lparr> rec_email = ''leo@unmsm.edu.pe'', rec_name = [], rec_subject = None \<rparr>,
      \<lparr> rec_email = ''eli@unmsm.edu.pe'', rec_name = ''Eli'', rec_subject = None \<rparr>]"

section \<open>Notions used to state the properties\<close>

text \<open>
  The lines of the credential file that hold a key, each with its key; the keys of a
  dictionary after one more assignment; the lines a write produces for its items; the
  recipient an effect of the dispatch loop belongs to.
\<close>

definition file_lines :: "string option \<Rightarrow> string list" where
  "file_lines file = (case file of None \<Rightarrow> [] | Some text \<Rightarrow> splitlines text)"

definition key_lines :: "string list \<Rightarrow> (string \<times> string) list" where
  "key_lines ls = map (\<lambda>l. (line_key l, l)) (filter is_key_line ls)"

definition update_lines :: "(string \<times> string) list \<Rightarrow> (string \<times> string) list" where
  "update_lines us = map (\<lambda>(k, v). (k, k @ ''='' @ safe_value v)) us"

definition add_key :: "'k list \<Rightarrow> 'k \<Rightarrow> 'k list" where
  "add_key ks k = (if k \<in> set ks then ks else ks @ [k])"

fun event_idx :: "event \<Rightarrow> nat" where
  "event_idx (Sendmail i m) = i"
| "event_idx (Sleep_ms i d) = i"

text \<open>
  A marked-up text as a sequence of pieces: a stretch without \<open><\<close>, or a tag
  \<open><\<close>, body, \<open>>\<close> whose body holds neither \<open><\<close> nor \<open>>\<close>. \<open>piece_src\<close>
  is the text of a piece as it stands in the input and \<open>piece_text\<close> what the stages of
  \<open>html_to_plain_text\<close> before \<open>html.unescape\<close> leave of it; \<open>close_p_piece\<close> and
  \<open>tag_text\<close> are the effects of the two regular expressions on a piece, and
  \<open>markup_text\<close> is the composition of those stages on a string.
\<close>

datatype piece = Plain string | Tag string

fun piece_src :: "piece \<Rightarrow> string" where
  "piece_src (Plain s) = s"
| "piece_src (Tag b) = CHR ''<'' # b @ ''>''"

fun piece_ok :: "piece \<Rightarrow> bool" where
  "piece_ok (Plain s) = (CHR ''<'' \<notin> set s)"
| "piece_ok (Tag b) = (CHR ''<'' \<notin> set b \<and> CHR ''>'' \<notin> set b)"

definition is_close_p :: "string \<Rightarrow> bool" where
  "is_close_p b =
     (case b of
        s # p # ws \<Rightarrow> s = CHR ''/'' \<and> (p = CHR ''p'' \<or> p = CHR ''P'') \<and> list_all is_space ws
      | _ \<Rightarrow> False)"

fun piece_text :: "piece \<Rightarrow> string" where
  "piece_text (Plain s) = s"
| "piece_text (Tag b) =
     (if b = ''br'' \<or> b = ''br/'' \<or> b = ''br /'' then [LF]
      else if is_close_p b then [LF, LF]
      else if b = [] then ''<>''
      else [])"

fun close_p_piece :: "piece \<Rightarrow> piece" where
  "close_p_piece (Plain s) = Plain s"
| "close_p_piece (Tag b) = (if is_close_p b then Plain [LF, LF] else Tag b)"

fun tag_text :: "piece \<Rightarrow> string" where
  "tag_text (Plain s) = s"
| "tag_text (Tag b) = (if b = [] then ''<>'' else [])"

definition markup_text :: "string \<Rightarrow> string" where
  "markup_text v =
     strip_tags (sub_close_p
       (replace (replace (replace v ''<br>'' [LF]) ''<br/>'' [LF]) ''<br />'' [LF]))"

section \<open>A concrete Send request and a concrete credential file\<close>

definition demo_send_form :: "string \<rightharpoonup> string" where
  "demo_send_form =
     [''smtp_email'' \<mapsto> ''idiomas@unmsm.edu.pe'',
      ''smtp_app_password'' \<mapsto> ''secret'',
      ''smtp_port'' \<mapsto> ''587'']"

definition demo_files :: upload_files where
  "demo_files = \<lparr> f_attachments = [], f_attachment = None \<rparr>"

definition demo_mapped :: session where
  "demo_mapped = demo_session \<lparr> s_mapped_records := Some demo_records \<rparr>"

definition demo_send_ctx :: dispatch_ctx where
  "demo_send_ctx =
     \<lparr> c_message_template = ''Hola '',
       c_default_subject = ''Aviso'',
       c_signature_text = fallback_signature,
       c_from_name = ''Centro de Idiomas'',
       c_smtp_email = ''idiomas@unmsm.edu.pe'',
       c_attachments = [] \<rparr>"

definition demo_env_text :: string where
  "demo_env_text =
     ''# credenciales SMTP'' @ [LF]
     @ ''SMTP_HOST=smtp.gmail.com'' @ [LF]
     @ ''SMTP_PORT = 25'' @ [LF]
     @ [LF]
     @ ''FLASK_SECRET_KEY=abc'' @ [LF]"

section \<open>Properties of the credential file\<close>

lemma dict_set_keys: "map fst (dict_set m k v) = add_key (map fst m) k"
  by (induction m) (force simp: add_key_def)+

lemma dict_set_map_of:
  "map_of (dict_set m k v) x = (if x = k then Some v else map_of m x)"
  by (induction m) auto

lemma add_key_distinct: "distinct ks \<Longrightarrow> distinct (add_key ks k)"
  by (simp add: add_key_def)

lemma foldl_add_key_distinct: "distinct ks \<Longrightarrow> distinct (foldl add_key ks xs)"
  by (induction xs arbitrary: ks) (simp_all add: add_key_distinct)

lemma scan_lines_keys:
  "map fst (scan_lines m ls) = foldl add_key (map fst m) (map fst (key_lines ls))"
  by (induction ls arbitrary: m) (simp_all add: key_lines_def dict_set_keys)

lemma apply_updates_keys:
  "map fst (apply_updates m us) = foldl add_key (map fst m) (map fst us)"
  by (induction us arbitrary: m) (auto simp: dict_set_keys)

lemma scan_lines_map_of:
  "map_of (scan_lines m ls) x =
     (case map_of (rev (key_lines ls)) x of Some l \<Rightarrow> Some l | None \<Rightarrow> map_of m x)"
proof (induction ls arbitrary: m)
  case Nil
  then show ?case by (simp add: key_lines_def)
next
  case (Cons l ls)
  show ?case
  proof (cases "is_key_line l")
    case True
    then show ?thesis
      by (simp add: Cons.IH dict_set_map_of key_lines_def map_add_def split: option.splits)
  next
    case False
    then show ?thesis
      by (simp add: Cons.IH key_lines_def)
  qed
qed

lemma apply_updates_map_of:
  "map_of (apply_updates m us) x =
     (case map_of (rev (update_lines us)) x of Some l \<Rightarrow> Some l | None \<Rightarrow> map_of m x)"
proof (induction us arbitrary: m)
  case Nil
  then show ?case by (simp add: update_lines_def)
next
  case (Cons u us)
  obtain k v where u: "u = (k, v)" by (cases u)
  show ?case
    by (simp add: u Cons.IH dict_set_map_of update_lines_def map_add_def split: option.splits)
qed

lemma update_lines_map_of:
  "map_of (rev (update_lines us)) k =
     map_option (\<lambda>v. k @ ''='' @ safe_value v) (map_of (rev us) k)"
  by (induction us) (auto simp: update_lines_def map_add_def split: option.splits)

lemma join_lines_terminated:
  "join_lines ls @ (if ls \<noteq> [] then [LF] else []) = concat (map (\<lambda>l. l @ [LF]) ls)"
  by (induction ls rule: join_lines.induct) simp_all

lemma env_mapping_keys:
  "map fst (env_mapping file us) =
     foldl add_key [] (map fst (key_lines (file_lines file)) @ map fst us)"
  by (simp add: env_mapping_def apply_updates_keys scan_lines_keys file_lines_def)

lemma env_mapping_map_of:
  "map_of (env_mapping file us) k =
     (case map_of (rev us) k of
        Some v \<Rightarrow> Some (k @ ''='' @ safe_value v)
      | None \<Rightarrow> map_of (rev (key_lines (file_lines file))) k)"
  by (simp add: env_mapping_def apply_updates_map_of scan_lines_map_of file_lines_def
      update_lines_map_of split: option.splits)

lemma env_mapping_distinct: "distinct (map fst (env_mapping file us))"
  unfolding env_mapping_keys by (rule foldl_add_key_distinct) simp

lemma key_lines_member:
  "(k, l) \<in> set (key_lines ls) \<Longrightarrow> l \<in> set ls \<and> is_key_line l"
  by (auto simp: key_lines_def)

lemma env_mapping_lines:
  assumes "l \<in> set (map snd (env_mapping file us))"
  shows "(l \<in> set (file_lines file) \<and> is_key_line l) \<or> l \<in> snd ` set (update_lines us)"
proof -
  from assms obtain k where kl: "(k, l) \<in> set (env_mapping file us)"
    by auto
  then have m: "map_of (env_mapping file us) k = Some l"
    using env_mapping_distinct by simp
  show ?thesis
  proof (cases "map_of (rev us) k")
    case None
    with m have "map_of (rev (key_lines (file_lines file))) k = Some l"
      by (simp add: env_mapping_map_of)
    then have "(k, l) \<in> set (key_lines (file_lines file))"
      by (auto dest: map_of_SomeD)
    then show ?thesis
      using key_lines_member by blast
  next
    case (Some v)
    with m have "l = k @ ''='' @ safe_value v"
      by (simp add: env_mapping_map_of)
    moreover from Some have "(k, v) \<in> set us"
      by (auto dest: map_of_SomeD)
    ultimately show ?thesis
      by (force simp: update_lines_def)
  qed
qed

lemma replace_scan_single:
  "replace_scan s [c] [] = filter (\<lambda>x. x \<noteq> c) s"
  by (induction s) (auto simp: startswith_def)

lemma safe_value_filter:
  "safe_value v = filter (\<lambda>x. x \<noteq> LF \<and> x \<noteq> CR) v"
  by (simp add: safe_value_def replace_def replace_scan_single conj_commute)

lemma demo_env_lines:
  "splitlines demo_env_text =
     [''# credenciales SMTP'', ''SMTP_HOST=smtp.gmail.com'', ''SMTP_PORT = 25'', [],
      ''FLASK_SECRET_KEY=abc'']"
  by (simp add: demo_env_text_def splitlines_def is_linebreak_def)

lemma demo_env_write:
  "write_env_values (Some demo_env_text) [(''SMTP_PORT'', ''587''), (''SMTP_EMAIL'', ''a@b'')] =
     ''SMTP_HOST=smtp.gmail.com'' @ [LF] @ ''SMTP_PORT=587'' @ [LF]
     @ ''FLASK_SECRET_KEY=abc'' @ [LF] @ ''SMTP_EMAIL=a@b'' @ [LF]"
  by (simp add: write_env_values_def env_mapping_def demo_env_lines is_key_line_def line_key_def
      strip_def lstrip_def rstrip_def is_space_def startswith_def safe_value_def replace_def Let_def)

text \<open>
  Claim C4, as amended. The rewritten file holds one line per key, each line ended by a
  line feed. The keys stand in the order in which they first occur in the old file,
  followed by the new keys of the write in the order of the write. The line of a key of
  the write is \<open>KEY=value\<close>, with the value as \<open>safe_value\<close> leaves it; every other
  key keeps, verbatim, the last line of the old file that holds it. Every line written is
  such a line: the lines of the old file that hold no key (comments, blank lines, lines
  without \<open>=\<close>) are not written back.
\<close>

theorem write_env_values_merge:
  "write_env_values file updates =
     concat (map (\<lambda>l. l @ [LF]) (map snd (env_mapping file updates)))
   \<and> map fst (env_mapping file updates) =
       foldl add_key [] (map fst (key_lines (file_lines file)) @ map fst updates)
   \<and> distinct (map fst (env_mapping file updates))
   \<and> map_of (env_mapping file updates) k =
       (case map_of (rev updates) k of
          Some v \<Rightarrow> Some (k @ ''='' @ safe_value v)
        | None \<Rightarrow> map_of (rev (key_lines (file_lines file))) k)
   \<and> (\<forall>l \<in> set (map snd (env_mapping file updates)).
         (l \<in> set (file_lines file) \<and> is_key_line l)
         \<or> l \<in> snd ` set (update_lines updates))"
proof -
  have "write_env_values file updates =
          concat (map (\<lambda>l. l @ [LF]) (map snd (env_mapping file updates)))"
    unfolding write_env_values_def Let_def by (rule join_lines_terminated)
  then show ?thesis
    using env_mapping_keys env_mapping_distinct env_mapping_map_of env_mapping_lines
    by blast
qed

theorem write_env_values_merge_witness:
  "write_env_values (Some demo_env_text) [(''SMTP_PORT'', ''587''), (''SMTP_EMAIL'', ''a@b'')] =
     ''SMTP_HOST=smtp.gmail.com'' @ [LF] @ ''SMTP_PORT=587'' @ [LF]
     @ ''FLASK_SECRET_KEY=abc'' @ [LF] @ ''SMTP_EMAIL=a@b'' @ [LF]
   \<and> map fst (env_mapping (Some demo_env_text) [(''SMTP_PORT'', ''587''), (''SMTP_EMAIL'', ''a@b'')]) =
       [''SMTP_HOST'', ''SMTP_PORT'', ''FLASK_SECRET_KEY'', ''SMTP_EMAIL'']
   \<and> map_of (env_mapping (Some demo_env_text) [(''SMTP_PORT'', ''587''), (''SMTP_EMAIL'', ''a@b'')])
         ''FLASK_SECRET_KEY'' = Some ''FLASK_SECRET_KEY=abc''
   \<and> map_of (env_mapping (Some demo_env_text) [(''SMTP_PORT'', ''587''), (''SMTP_EMAIL'', ''a@b'')])
         ''SMTP_PORT'' = Some ''SMTP_PORT=587''"
proof -
  note t = write_env_values_merge [of "Some demo_env_text"
      "[(''SMTP_PORT'', ''587''), (''SMTP_EMAIL'', ''a@b'')]"]
  have keys: "map fst (key_lines (file_lines (Some demo_env_text))) =
              [''SMTP_HOST'', ''SMTP_PORT'', ''FLASK_SECRET_KEY'']"
    by (simp add: key_lines_def file_lines_def demo_env_lines is_key_line_def line_key_def
        strip_def lstrip_def rstrip_def is_space_def startswith_def)
  have order: "map fst (env_mapping (Some demo_env_text)
                 [(''SMTP_PORT'', ''587''), (''SMTP_EMAIL'', ''a@b'')]) =
               [''SMTP_HOST'', ''SMTP_PORT'', ''FLASK_SECRET_KEY'', ''SMTP_EMAIL'']"
    using t [THEN conjunct2, THEN conjunct1] by (simp add: keys add_key_def)
  have kept: "map_of (env_mapping (Some demo_env_text)
                 [(''SMTP_PORT'', ''587''), (''SMTP_EMAIL'', ''a@b'')]) ''FLASK_SECRET_KEY'' =
              Some ''FLASK_SECRET_KEY=abc''"
    using t [of "''FLASK_SECRET_KEY''", THEN conjunct2, THEN conjunct2, THEN conjunct2, THEN conjunct1]
    by (simp add: key_lines_def file_lines_def demo_env_lines is_key_line_def line_key_def
        strip_def lstrip_def rstrip_def is_space_def startswith_def)
  have over: "map_of (env_mapping (Some demo_env_text)
                 [(''SMTP_PORT'', ''587''), (''SMTP_EMAIL'', ''a@b'')]) ''SMTP_PORT'' =
              Some ''SMTP_PORT=587''"
    using t [of "''SMTP_PORT''", THEN conjunct2, THEN conjunct2, THEN conjunct2, THEN conjunct1]
    by (simp add: safe_value_filter)
  show ?thesis
    using demo_env_write order kept over by blast
qed

text \<open>
  Claim C4 as stated fails: a file that starts with a comment line loses that line when a
  key it does not hold is written.
\<close>

theorem write_env_values_drops_comments_counterexample:
  "splitlines (''# credenciales SMTP'' @ [LF] @ ''SMTP_HOST=smtp.gmail.com'' @ [LF]) =
     [''# credenciales SMTP'', ''SMTP_HOST=smtp.gmail.com'']
   \<and> write_env_values
        (Some (''# credenciales SMTP'' @ [LF] @ ''SMTP_HOST=smtp.gmail.com'' @ [LF]))
        [(''SMTP_PORT'', ''587'')] =
      ''SMTP_HOST=smtp.gmail.com'' @ [LF] @ ''SMTP_PORT=587'' @ [LF]"
  by (simp add: write_env_values_def env_mapping_def splitlines_def is_linebreak_def
      is_key_line_def line_key_def strip_def lstrip_def rstrip_def is_space_def startswith_def
      safe_value_def replace_def Let_def)

lemma demo_no_env_error: "w_env_error demo_world = None"
  by (simp add: demo_world_def)

text \<open>
  Claim C9. \<open>safe_value\<close> removes the carriage returns and the line feeds of a value
  and nothing else; \<open>splitlines\<close>, which reads the file back, also ends a line at a form
  feed (and at VT, FS, GS, RS, NEL). A sender name that holds a form feed is written as one
  line; at the next write the part after the form feed is read as a line of its own and, as
  it holds a key, is written back as a line of the file: a pair that no write was given.
\<close>

theorem form_feed_injects_key_line:
  "remember_credentials demo_world demo_store ''a@b'' ''pw''
     (''X'' @ [CHR 0x0C] @ ''FLASK_SECRET_KEY=abc'') ''h'' 587 =
     (None,
      \<lparr> st_environ =
          [''SMTP_EMAIL'' \<mapsto> ''a@b'', ''SMTP_APP_PASSWORD'' \<mapsto> ''pw'',
           ''SMTP_FROM_NAME'' \<mapsto> ''X'' @ [CHR 0x0C] @ ''FLASK_SECRET_KEY=abc'',
           ''SMTP_HOST'' \<mapsto> ''h'', ''SMTP_PORT'' \<mapsto> ''587''],
        st_env_file =
          Some (''SMTP_EMAIL=a@b'' @ [LF] @ ''SMTP_APP_PASSWORD=pw'' @ [LF]
                @ ''SMTP_FROM_NAME=X'' @ [CHR 0x0C] @ ''FLASK_SECRET_KEY=abc'' @ [LF]
                @ ''SMTP_HOST=h'' @ [LF] @ ''SMTP_PORT=587'' @ [LF]) \<rparr>)
   \<and> st_env_file
       (snd (remember_credentials demo_world
               (snd (remember_credentials demo_world demo_store ''a@b'' ''pw''
                       (''X'' @ [CHR 0x0C] @ ''FLASK_SECRET_KEY=abc'') ''h'' 587))
               ''a@b'' ''pw'' ''Y'' ''h'' 587)) =
     Some (''SMTP_EMAIL=a@b'' @ [LF] @ ''SMTP_APP_PASSWORD=pw'' @ [LF]
           @ ''SMTP_FROM_NAME=Y'' @ [LF] @ ''FLASK_SECRET_KEY=abc'' @ [LF]
           @ ''SMTP_HOST=h'' @ [LF] @ ''SMTP_PORT=587'' @ [LF])"
proof -
  have port: "str_int 587 = ''587''"
    by code_simp
  show ?thesis
    by (simp add: remember_credentials_def demo_no_env_error demo_store_def port
        write_env_values_def env_mapping_def splitlines_def is_linebreak_def is_key_line_def
        line_key_def strip_def lstrip_def rstrip_def is_space_def startswith_def
        safe_value_filter Let_def)
qed

section \<open>Properties of the conversion of HTML to plain text\<close>

lemma startswith_Cons:
  "startswith (c # cs) (d # ds) = (c = d \<and> startswith cs ds)"
  by (auto simp: startswith_def)

lemma startswith_Nil [simp]: "startswith s [] = True"
  by (simp add: startswith_def)

lemma replace_scan_plain:
  "CHR ''<'' \<notin> set s \<Longrightarrow> replace_scan s (CHR ''<'' # old) new = s"
  by (induction s) (auto simp: startswith_Cons)

lemma replace_scan_prefix:
  "CHR ''<'' \<notin> set a \<Longrightarrow>
     replace_scan (a @ s) (CHR ''<'' # old) new = a @ replace_scan s (CHR ''<'' # old) new"
  by (induction a) (auto simp: startswith_Cons)

lemma replace_plain:
  "CHR ''<'' \<notin> set s \<Longrightarrow> replace s (CHR ''<'' # old) new = s"
  by (simp add: replace_def replace_scan_plain)

lemma replace_prefix:
  "CHR ''<'' \<notin> set a \<Longrightarrow>
     replace (a @ s) (CHR ''<'' # old) new = a @ replace s (CHR ''<'' # old) new"
  by (simp add: replace_def replace_scan_prefix)

lemma match_close_p_other: "CHR ''<'' \<noteq> c \<Longrightarrow> match_close_p (c # cs) = None"
  by (auto simp: match_close_p_def split: list.splits)

lemma sub_close_p_plain: "CHR ''<'' \<notin> set s \<Longrightarrow> sub_close_p s = s"
  by (induction s) (simp_all add: match_close_p_other)

lemma sub_close_p_prefix:
  "CHR ''<'' \<notin> set a \<Longrightarrow> sub_close_p (a @ s) = a @ sub_close_p s"
  by (induction a) (simp_all add: match_close_p_other)

lemma match_tag_other: "CHR ''<'' \<noteq> c \<Longrightarrow> match_tag (c # cs) = None"
  by (auto simp: match_tag_def)

lemma strip_tags_plain: "CHR ''<'' \<notin> set s \<Longrightarrow> strip_tags s = s"
  by (induction s) (simp_all add: match_tag_other)

lemma dropWhile_spaces:
  "list_all is_space ws \<Longrightarrow> dropWhile is_space (ws @ CHR ''>'' # b) = CHR ''>'' # b"
  by (induction ws) (simp_all add: is_space_def)

lemma match_close_p_hit:
  "list_all is_space ws \<Longrightarrow> p = CHR ''p'' \<or> p = CHR ''P'' \<Longrightarrow>
     match_close_p (CHR ''<'' # CHR ''/'' # p # ws @ CHR ''>'' # b) = Some b"
  by (auto simp: match_close_p_def dropWhile_spaces)

lemma lt_no_space: "\<not> is_space (CHR ''<'')"
  by (simp add: is_space_def)

lemma spaces_plain: "list_all is_space ws \<Longrightarrow> CHR ''<'' \<notin> set ws"
  using lt_no_space by (induction ws) auto

lemma startswith_tag:
  "CHR ''>'' \<notin> set b \<Longrightarrow> CHR ''>'' \<notin> set t \<Longrightarrow>
     startswith (b @ CHR ''>'' # rest) (t @ ''>'') = (b = t)"
proof (induction b arbitrary: t)
  case Nil
  then show ?case by (cases t) (auto simp: startswith_Cons)
next
  case (Cons y b)
  then show ?case by (cases t) (auto simp: startswith_Cons)
qed

lemma replace_scan_tag_hit:
  "replace_scan (CHR ''<'' # t @ CHR ''>'' # rest) (CHR ''<'' # t @ ''>'') new =
     new @ replace_scan rest (CHR ''<'' # t @ ''>'') new"
  by (simp add: startswith_def)

lemma replace_scan_tag_miss:
  assumes "CHR ''<'' \<notin> set b" and "CHR ''>'' \<notin> set b" and "CHR ''>'' \<notin> set t" and "b \<noteq> t"
  shows "replace_scan (CHR ''<'' # b @ CHR ''>'' # rest) (CHR ''<'' # t @ ''>'') new =
           CHR ''<'' # b @ CHR ''>'' # replace_scan rest (CHR ''<'' # t @ ''>'') new"
proof -
  have "\<not> startswith (CHR ''<'' # b @ CHR ''>'' # rest) (CHR ''<'' # t @ ''>'')"
    using assms by (simp add: startswith_Cons startswith_tag)
  then have "replace_scan (CHR ''<'' # b @ CHR ''>'' # rest) (CHR ''<'' # t @ ''>'') new =
             CHR ''<'' # replace_scan (b @ CHR ''>'' # rest) (CHR ''<'' # t @ ''>'') new"
    by simp
  also have "replace_scan (b @ CHR ''>'' # rest) (CHR ''<'' # t @ ''>'') new =
             b @ replace_scan (CHR ''>'' # rest) (CHR ''<'' # t @ ''>'') new"
    using assms(1) by (rule replace_scan_prefix)
  also have "replace_scan (CHR ''>'' # rest) (CHR ''<'' # t @ ''>'') new =
             CHR ''>'' # replace_scan rest (CHR ''<'' # t @ ''>'') new"
    by (simp add: startswith_Cons)
  finally show ?thesis by simp
qed

lemma replace_pieces:
  assumes "list_all piece_ok ps" and "CHR ''>'' \<notin> set t"
  shows "replace (concat (map piece_src ps)) (CHR ''<'' # t @ ''>'') new =
           concat (map piece_src (map (\<lambda>p. if p = Tag t then Plain new else p) ps))"
proof -
  have "replace_scan (concat (map piece_src ps)) (CHR ''<'' # t @ ''>'') new =
           concat (map piece_src (map (\<lambda>p. if p = Tag t then Plain new else p) ps))"
    using assms(1)
  proof (induction ps)
    case Nil
    then show ?case by simp
  next
    case (Cons p ps)
    then have ih: "replace_scan (concat (map piece_src ps)) (CHR ''<'' # t @ ''>'') new =
           concat (map piece_src (map (\<lambda>p. if p = Tag t then Plain new else p) ps))"
      and ok: "piece_ok p"
      by simp_all
    show ?case
    proof (cases p)
      case (Plain s)
      with ok show ?thesis
        by (simp add: replace_scan_prefix ih)
    next
      case (Tag b)
      show ?thesis
      proof (cases "b = t")
        case True
        with Tag show ?thesis
          using replace_scan_tag_hit [of t "concat (map piece_src ps)" new] by (simp add: ih)
      next
        case False
        with Tag ok assms(2) show ?thesis
          using replace_scan_tag_miss [of b t "concat (map piece_src ps)" new] by (simp add: ih)
      qed
    qed
  qed
  then show ?thesis
    by (simp add: replace_def)
qed

lemma replace_pieces_ok:
  "list_all piece_ok ps \<Longrightarrow> CHR ''<'' \<notin> set new \<Longrightarrow>
     list_all piece_ok (map (\<lambda>p. if p = Tag t then Plain new else p) ps)"
  by (induction ps) auto

lemma dropWhile_not_all_spaces:
  "\<not> list_all is_space ws \<Longrightarrow> CHR ''>'' \<notin> set ws \<Longrightarrow>
     \<exists>c r. dropWhile is_space (ws @ rest) = c # r \<and> c \<noteq> CHR ''>''"
  by (induction ws) auto

lemma match_close_p_tag_miss:
  assumes "CHR ''>'' \<notin> set b" and "\<not> is_close_p b"
  shows "match_close_p (CHR ''<'' # b @ CHR ''>'' # rest) = None"
proof (cases b)
  case Nil
  then show ?thesis
    by (simp add: match_close_p_def split: list.splits)
next
  case (Cons s b')
  show ?thesis
  proof (cases b')
    case Nil
    with Cons assms(1) show ?thesis
      by (auto simp: match_close_p_def split: list.splits)
  next
    case (Cons p ws)
    show ?thesis
    proof (cases "s = CHR ''/'' \<and> (p = CHR ''p'' \<or> p = CHR ''P'')")
      case True
      with assms \<open>b = s # b'\<close> Cons have ws: "\<not> list_all is_space ws" "CHR ''>'' \<notin> set ws"
        by (auto simp: is_close_p_def)
      obtain c r where "dropWhile is_space (ws @ CHR ''>'' # rest) = c # r" "c \<noteq> CHR ''>''"
        using dropWhile_not_all_spaces [OF ws] by blast
      with True \<open>b = s # b'\<close> Cons show ?thesis
        by (auto simp: match_close_p_def)
    next
      case False
      with \<open>b = s # b'\<close> Cons show ?thesis
        by (auto simp: match_close_p_def)
    qed
  qed
qed

lemma match_close_p_tag_hit:
  assumes "is_close_p b"
  shows "match_close_p (CHR ''<'' # b @ CHR ''>'' # rest) = Some rest"
proof -
  from assms obtain p ws where b: "b = CHR ''/'' # p # ws"
    and p: "p = CHR ''p'' \<or> p = CHR ''P''" and ws: "list_all is_space ws"
    by (auto simp: is_close_p_def split: list.splits)
  show ?thesis
    unfolding b using match_close_p_hit [OF ws p, of rest] by simp
qed

lemma sub_close_p_pieces:
  assumes "list_all piece_ok ps"
  shows "sub_close_p (concat (map piece_src ps)) = concat (map piece_src (map close_p_piece ps))"
  using assms
proof (induction ps)
  case Nil
  then show ?case by simp
next
  case (Cons p ps)
  then have ih: "sub_close_p (concat (map piece_src ps)) =
                 concat (map piece_src (map close_p_piece ps))"
    and ok: "piece_ok p"
    by simp_all
  show ?case
  proof (cases p)
    case (Plain s)
    with ok show ?thesis
      by (simp add: sub_close_p_prefix ih)
  next
    case (Tag b)
    show ?thesis
    proof (cases "is_close_p b")
      case True
      then show ?thesis
        using Tag match_close_p_tag_hit [OF True, of "concat (map piece_src ps)"]
        by (simp add: ih)
    next
      case False
      have b: "CHR ''<'' \<notin> set b" "CHR ''>'' \<notin> set b"
        using ok Tag by simp_all
      have "sub_close_p (CHR ''<'' # b @ CHR ''>'' # concat (map piece_src ps)) =
            CHR ''<'' # sub_close_p (b @ CHR ''>'' # concat (map piece_src ps))"
        using match_close_p_tag_miss [OF b(2) False, of "concat (map piece_src ps)"] by simp
      also have "sub_close_p (b @ CHR ''>'' # concat (map piece_src ps)) =
                 b @ sub_close_p (CHR ''>'' # concat (map piece_src ps))"
        using b(1) by (rule sub_close_p_prefix)
      also have "sub_close_p (CHR ''>'' # concat (map piece_src ps)) =
                 CHR ''>'' # sub_close_p (concat (map piece_src ps))"
        by (simp add: match_close_p_other)
      finally show ?thesis
        using Tag False by (simp add: ih)
    qed
  qed
qed

lemma close_p_piece_ok: "piece_ok p \<Longrightarrow> piece_ok (close_p_piece p)"
  by (cases p) auto

lemma close_p_pieces_ok:
  "list_all piece_ok ps \<Longrightarrow> list_all piece_ok (map close_p_piece ps)"
  by (induction ps) (simp_all add: close_p_piece_ok)

lemma strip_tags_prefix:
  "CHR ''<'' \<notin> set a \<Longrightarrow> strip_tags (a @ s) = a @ strip_tags s"
  by (induction a) (simp_all add: match_tag_other)

lemma upto_gt:
  "CHR ''>'' \<notin> set b \<Longrightarrow>
     takeWhile (\<lambda>x. x \<noteq> CHR ''>'') (b @ CHR ''>'' # rest) = b
     \<and> dropWhile (\<lambda>x. x \<noteq> CHR ''>'') (b @ CHR ''>'' # rest) = CHR ''>'' # rest"
  by (induction b) auto

lemma match_tag_hit:
  "CHR ''>'' \<notin> set b \<Longrightarrow> b \<noteq> [] \<Longrightarrow>
     match_tag (CHR ''<'' # b @ CHR ''>'' # rest) = Some rest"
  by (simp add: match_tag_def upto_gt)

lemma strip_tags_pieces:
  assumes "list_all piece_ok ps"
  shows "strip_tags (concat (map piece_src ps)) = concat (map tag_text ps)"
  using assms
proof (induction ps)
  case Nil
  then show ?case by simp
next
  case (Cons p ps)
  then have ih: "strip_tags (concat (map piece_src ps)) = concat (map tag_text ps)"
    and ok: "piece_ok p"
    by simp_all
  show ?case
  proof (cases p)
    case (Plain s)
    with ok show ?thesis
      by (simp add: strip_tags_prefix ih)
  next
    case (Tag b)
    show ?thesis
    proof (cases "b = []")
      case True
      with Tag show ?thesis
        by (simp add: match_tag_def match_tag_other ih)
    next
      case False
      with Tag ok show ?thesis
        using match_tag_hit [of b "concat (map piece_src ps)"] by (simp add: ih)
    qed
  qed
qed

lemma html_to_plain_text_markup:
  "html_to_plain_text d v =
     (if v = [] then Inr []
      else case unescape d (markup_text v) of Inl exc \<Rightarrow> Inl exc | Inr t \<Rightarrow> Inr (strip t))"
  by (simp add: html_to_plain_text_def markup_text_def Let_def)

lemma replace_scan_bounds:
  "length new \<le> length old \<Longrightarrow>
     set (replace_scan s old new) \<subseteq> set s \<union> set new
     \<and> length (replace_scan s old new) \<le> length s"
proof (induction s old new rule: replace_scan.induct)
  case (1 old new)
  then show ?case by simp
next
  case (2 c cs old new)
  show ?case
  proof (cases "old \<noteq> [] \<and> startswith (c # cs) old")
    case True
    let ?rest = "drop (length old) (c # cs)"
    have ih: "set (replace_scan ?rest old new) \<subseteq> set ?rest \<union> set new
              \<and> length (replace_scan ?rest old new) \<le> length ?rest"
      using True "2.prems" by (rule "2.IH"(1))
    have eq: "replace_scan (c # cs) old new = new @ replace_scan ?rest old new"
      by (subst replace_scan.simps(2)) (simp only: True simp_thms if_True)
    have sub: "set ?rest \<subseteq> set (c # cs)"
      by (rule set_drop_subset)
    have "take (length old) (c # cs) = old"
      using True by (simp only: startswith_def)
    then have "length (take (length old) (c # cs)) = length old"
      by (rule arg_cong)
    then have len: "length old \<le> length (c # cs)"
      by (simp only: length_take)
    have l: "length ?rest = length (c # cs) - length old"
      by (rule length_drop)
    have "set (new @ replace_scan ?rest old new) \<subseteq> set (c # cs) \<union> set new"
      using ih sub by (simp only: set_append) blast
    moreover have "length (new @ replace_scan ?rest old new) \<le> length (c # cs)"
      using ih l len "2.prems" by (simp only: length_append) linarith
    ultimately show ?thesis
      unfolding eq by (rule conjI)
  next
    case False
    have ih: "set (replace_scan cs old new) \<subseteq> set cs \<union> set new
               \<and> length (replace_scan cs old new) \<le> length cs"
      using False "2.prems" by (rule "2.IH"(2))
    have eq: "replace_scan (c # cs) old new = c # replace_scan cs old new"
      by (subst replace_scan.simps(2)) (simp only: False simp_thms if_False)
    show ?thesis
      unfolding eq using ih by auto
  qed
qed

lemma replace_bounds:
  assumes "old \<noteq> []" and "length new \<le> length old"
  shows "set (replace s old new) \<subseteq> set s \<union> set new"
    and "length (replace s old new) \<le> length s"
  using assms replace_scan_bounds [of new old s] by (simp_all add: replace_def)

lemma match_close_p_bounds:
  assumes "match_close_p s = Some rest"
  shows "set rest \<subseteq> set s" and "length rest + 2 \<le> length s"
proof -
  from assms obtain a b p r where s: "s = a # b # p # r"
    and d: "dropWhile is_space r = CHR ''>'' # rest"
    by (auto simp: match_close_p_def split: list.splits if_splits)
  have "set (dropWhile is_space r) \<subseteq> set r"
    by (auto dest: set_dropWhileD)
  then show "set rest \<subseteq> set s"
    unfolding d s by auto
  have "length (dropWhile is_space r) \<le> length r"
    by (rule length_dropWhile_le)
  then show "length rest + 2 \<le> length s"
    unfolding d s by simp
qed

lemma sub_close_p_bounds:
  "set (sub_close_p s) \<subseteq> set s \<union> {LF} \<and> length (sub_close_p s) \<le> length s"
proof (induction s rule: sub_close_p.induct)
  case 1
  then show ?case by simp
next
  case (2 c cs)
  show ?case
  proof (cases "match_close_p (c # cs)")
    case None
    with "2.IH"(1) [OF None] show ?thesis by auto
  next
    case (Some rest)
    from "2.IH"(2) [OF Some] have "set (sub_close_p rest) \<subseteq> set rest \<union> {LF}"
      and "length (sub_close_p rest) \<le> length rest"
      by simp_all
    with match_close_p_bounds [OF Some] Some show ?thesis
      by auto
  qed
qed

lemma set_tl_subset: "set (tl xs) \<subseteq> set xs"
  by (cases xs) auto

lemma match_tag_bounds:
  assumes "match_tag s = Some rest"
  shows "set rest \<subseteq> set s" and "length rest \<le> length s"
proof -
  let ?d = "dropWhile (\<lambda>x. x \<noteq> CHR ''>'') (tl s)"
  from assms have r: "rest = tl ?d"
    by (auto simp: match_tag_def split: list.splits if_splits)
  have "set (tl ?d) \<subseteq> set ?d"
    by (rule set_tl_subset)
  moreover have "set ?d \<subseteq> set (tl s)"
    by (auto dest: set_dropWhileD)
  moreover have "set (tl s) \<subseteq> set s"
    by (rule set_tl_subset)
  ultimately show "set rest \<subseteq> set s"
    unfolding r by blast
  have "length ?d \<le> length (tl s)"
    by (rule length_dropWhile_le)
  then show "length rest \<le> length s"
    unfolding r by simp
qed

lemma strip_tags_bounds:
  "set (strip_tags s) \<subseteq> set s \<and> length (strip_tags s) \<le> length s"
proof (induction s rule: strip_tags.induct)
  case 1
  then show ?case by simp
next
  case (2 c cs)
  show ?case
  proof (cases "match_tag (c # cs)")
    case None
    with "2.IH"(1) [OF None] show ?thesis by auto
  next
    case (Some rest)
    from "2.IH"(2) [OF Some] have "set (strip_tags rest) \<subseteq> set rest"
      and "length (strip_tags rest) \<le> length rest"
      by simp_all
    with match_tag_bounds [OF Some] Some show ?thesis
      by auto
  qed
qed

lemma markup_text_bounds:
  "set (markup_text v) \<subseteq> set v \<union> {LF}" "length (markup_text v) \<le> length v"
proof -
  let ?a = "replace v ''<br>'' [LF]"
  let ?b = "replace ?a ''<br/>'' [LF]"
  let ?c = "replace ?b ''<br />'' [LF]"
  have a: "set ?a \<subseteq> set v \<union> {LF}" "length ?a \<le> length v"
    using replace_bounds [of "''<br>''" "[LF]" v] by simp_all
  have b: "set ?b \<subseteq> set ?a \<union> {LF}" "length ?b \<le> length ?a"
    using replace_bounds [of "''<br/>''" "[LF]" ?a] by simp_all
  have c: "set ?c \<subseteq> set ?b \<union> {LF}" "length ?c \<le> length ?b"
    using replace_bounds [of "''<br />''" "[LF]" ?b] by simp_all
  have d: "set (sub_close_p ?c) \<subseteq> set ?c \<union> {LF}" "length (sub_close_p ?c) \<le> length ?c"
    using sub_close_p_bounds [of ?c] by simp_all
  have e: "set (markup_text v) \<subseteq> set (sub_close_p ?c)"
          "length (markup_text v) \<le> length (sub_close_p ?c)"
    using strip_tags_bounds [of "sub_close_p ?c"] by (simp_all add: markup_text_def)
  show "set (markup_text v) \<subseteq> set v \<union> {LF}"
    using a(1) b(1) c(1) d(1) e(1) by blast
  show "length (markup_text v) \<le> length v"
    using a(2) b(2) c(2) d(2) e(2) by linarith
qed

lemma long_decimal_ref_length:
  "long_decimal_ref s \<Longrightarrow> max_str_digits + 2 < length s"
proof (induction s)
  case Nil
  then show ?case by simp
next
  case (Cons c cs)
  show ?case
  proof (cases "long_decimal_ref cs")
    case True
    with Cons.IH show ?thesis by simp
  next
    case False
    with Cons.prems obtain h ds where "cs = h # ds"
      and "max_str_digits < length (takeWhile is_digit ds)"
      by (auto split: list.splits)
    moreover have "length (takeWhile is_digit ds) \<le> length ds"
      by (rule length_takeWhile_le)
    ultimately show ?thesis by simp
  qed
qed

lemma html_to_plain_text_raises:
  assumes "html_to_plain_text d v = Inl exc"
  shows "exc = ValueError \<and> CHR ''&'' \<in> set v \<and> max_str_digits + 2 < length v"
proof -
  from assms have u: "unescape d (markup_text v) = Inl exc"
    by (auto simp: html_to_plain_text_markup split: if_splits sum.splits)
  then have e: "exc = ValueError" and amp: "CHR ''&'' \<in> set (markup_text v)"
    and long: "long_decimal_ref (markup_text v)"
    by (auto simp: unescape_def split: if_splits)
  from amp markup_text_bounds(1) [of v] have "CHR ''&'' \<in> set v"
    by auto
  moreover from long have "max_str_digits + 2 < length (markup_text v)"
    by (rule long_decimal_ref_length)
  then have "max_str_digits + 2 < length v"
    using markup_text_bounds(2) [of v] by linarith
  ultimately show ?thesis
    using e by simp
qed

lemma piece_text_stages:
  "tag_text (close_p_piece
     ((\<lambda>p. if p = Tag ''br /'' then Plain [LF] else p)
        ((\<lambda>p. if p = Tag ''br/'' then Plain [LF] else p)
           ((\<lambda>p. if p = Tag ''br'' then Plain [LF] else p) p)))) = piece_text p"
  by (cases p) (auto simp: is_close_p_def)

lemma markup_text_pieces:
  assumes ok: "list_all piece_ok ps"
  shows "markup_text (concat (map piece_src ps)) = concat (map piece_text ps)"
proof -
  let ?f1 = "\<lambda>p. if p = Tag ''br'' then Plain [LF] else p"
  let ?f2 = "\<lambda>p. if p = Tag ''br/'' then Plain [LF] else p"
  let ?f3 = "\<lambda>p. if p = Tag ''br /'' then Plain [LF] else p"
  have lf: "CHR ''<'' \<notin> set [LF]"
    by simp
  have ok1: "list_all piece_ok (map ?f1 ps)"
    using ok lf by (rule replace_pieces_ok)
  have ok2: "list_all piece_ok (map ?f2 (map ?f1 ps))"
    using ok1 lf by (rule replace_pieces_ok)
  have ok3: "list_all piece_ok (map ?f3 (map ?f2 (map ?f1 ps)))"
    using ok2 lf by (rule replace_pieces_ok)
  have r1: "replace (concat (map piece_src ps)) ''<br>'' [LF] =
            concat (map piece_src (map ?f1 ps))"
    using replace_pieces [OF ok, of "''br''" "[LF]"] by simp
  have r2: "replace (concat (map piece_src (map ?f1 ps))) ''<br/>'' [LF] =
            concat (map piece_src (map ?f2 (map ?f1 ps)))"
    using replace_pieces [OF ok1, of "''br/''" "[LF]"] by simp
  have r3: "replace (concat (map piece_src (map ?f2 (map ?f1 ps)))) ''<br />'' [LF] =
            concat (map piece_src (map ?f3 (map ?f2 (map ?f1 ps))))"
    using replace_pieces [OF ok2, of "''br /''" "[LF]"] by simp
  have "markup_text (concat (map piece_src ps)) =
        concat (map tag_text (map close_p_piece (map ?f3 (map ?f2 (map ?f1 ps)))))"
    unfolding markup_text_def r1 r2 r3 sub_close_p_pieces [OF ok3]
    by (rule strip_tags_pieces [OF close_p_pieces_ok [OF ok3]])
  also have "\<dots> = concat (map piece_text ps)"
    by (simp only: map_map comp_def piece_text_stages)
  finally show ?thesis .
qed

lemma pieces_empty:
  "concat (map piece_src ps) = [] \<Longrightarrow> concat (map piece_text ps) = []"
proof (induction ps)
  case Nil
  then show ?case by simp
next
  case (Cons p ps)
  then show ?case by (cases p) auto
qed

lemma html_examples:
  "html_to_plain_text d ''<p>Hi</p>'' = Inr ''Hi''"
  "html_to_plain_text d ''A<br>B'' = Inr [CHR ''A'', LF, CHR ''B'']"
  by (simp_all add: html_to_plain_text_def replace_def startswith_Cons match_close_p_def
      match_tag_def unescape_def strip_def lstrip_def rstrip_def is_space_def Let_def)

lemma long_decimal_ref_digits:
  assumes "max_str_digits < n"
  shows "long_decimal_ref (''&#'' @ replicate n (CHR ''1'') @ '';'')"
proof -
  have d: "is_digit (CHR ''1'')"
    by (simp add: is_digit_def)
  have nd: "\<not> is_digit (CHR '';'')"
    by (simp add: is_digit_def)
  have "takeWhile is_digit (replicate n (CHR ''1'') @ '';'') =
        replicate n (CHR ''1'') @ takeWhile is_digit '';''"
    by (rule takeWhile_append2) (simp add: d)
  then have "length (takeWhile is_digit (replicate n (CHR ''1'') @ '';'')) = n"
    by (simp add: nd)
  with assms show ?thesis
    by simp
qed

lemma html_long_ref_raises:
  assumes "max_str_digits < n"
  shows "html_to_plain_text d (''&#'' @ replicate n (CHR ''1'') @ '';'') = Inl ValueError"
proof -
  let ?v = "''&#'' @ replicate n (CHR ''1'') @ '';''"
  have ok: "list_all piece_ok [Plain ?v]"
    by simp
  have m: "markup_text ?v = ?v"
    using markup_text_pieces [OF ok] by simp
  have a: "CHR ''&'' \<in> set ?v"
    by simp
  have ne: "?v \<noteq> []"
    by simp
  have u: "unescape d ?v = Inl ValueError"
    unfolding unescape_def using a long_decimal_ref_digits [OF assms] by (simp only: not_True_eq_False if_False if_True)
  show ?thesis
    by (simp only: html_to_plain_text_markup ne if_False m u sum.case)
qed

text \<open>
  Claim C5, as amended. \<open>html_to_plain_text\<close> returns a string or raises
  \<open>ValueError\<close>, and it raises only where \<open>html.unescape\<close> does: the input then holds
  an ampersand and more than \<open>max_str_digits + 2\<close> characters, so the conversion returns
  for every input without \<open>&\<close> and for every input of at most 4302 characters. On a text
  made of pieces (stretches without \<open><\<close>, and tags whose body holds neither \<open><\<close> nor
  \<open>>\<close>), in any number and order, the result is \<open>html.unescape\<close> of the pieces'
  texts, trimmed, where the tags \<open><br>\<close>, \<open><br/>\<close> and \<open><br />\<close> give one line
  feed each, \<open></p\<close>, any whitespace, \<open>>\<close> gives two, with \<open>p\<close> in either case,
  \<open><>\<close> stays and every other tag gives nothing. In particular \<open><p>Hi</p>\<close> gives
  \<open>Hi\<close> and \<open>A<br>B\<close> gives \<open>A\<close>, line feed, \<open>B\<close>.
\<close>

theorem html_line_breaks:
  "(html_to_plain_text d v = Inl exc \<longrightarrow>
      exc = ValueError \<and> CHR ''&'' \<in> set v \<and> max_str_digits + 2 < length v)
   \<and> (list_all piece_ok ps \<longrightarrow>
        html_to_plain_text d (concat (map piece_src ps)) =
          (case unescape d (concat (map piece_text ps)) of
             Inl e \<Rightarrow> Inl e
           | Inr t \<Rightarrow> Inr (strip t)))
   \<and> html_to_plain_text d ''<p>Hi</p>'' = Inr ''Hi''
   \<and> html_to_plain_text d ''A<br>B'' = Inr [CHR ''A'', LF, CHR ''B'']"
proof -
  have pieces: "html_to_plain_text d (concat (map piece_src ps)) =
          (case unescape d (concat (map piece_text ps)) of
             Inl e \<Rightarrow> Inl e
           | Inr t \<Rightarrow> Inr (strip t))"
    if ok: "list_all piece_ok ps"
  proof (cases "concat (map piece_src ps) = []")
    case True
    then have e: "concat (map piece_text ps) = []"
      by (rule pieces_empty)
    have "unescape d [] = Inr []" and "strip [] = []"
      by (simp_all add: unescape_def strip_def lstrip_def rstrip_def)
    then show ?thesis
      by (simp only: html_to_plain_text_markup True e) simp
  next
    case False
    then show ?thesis
      by (simp only: html_to_plain_text_markup markup_text_pieces [OF ok] if_False)
  qed
  show ?thesis
    using html_to_plain_text_raises [of d v exc] pieces html_examples [of d] by blast
qed

theorem html_line_breaks_witness:
  "html_to_plain_text (\<lambda>s. s) (''&#'' @ replicate 4301 (CHR ''1'') @ '';'') = Inl ValueError
   \<and> CHR ''&'' \<in> set (''&#'' @ replicate 4301 (CHR ''1'') @ '';'')
   \<and> max_str_digits + 2 < length (''&#'' @ replicate 4301 (CHR ''1'') @ '';'')
   \<and> list_all piece_ok
        [Plain ''A'', Tag ''br'', Plain ''B'', Tag ''/P '', Plain ''C'', Tag ''b'', Plain ''D'',
         Tag ''BR'', Plain ''E'', Tag ''br /'', Plain ''F'', Tag ''br/'']
   \<and> html_to_plain_text (\<lambda>s. s) ''A<br>B</P >C<b>D<BR>E<br />F<br/>'' =
       Inr (''A'' @ [LF] @ ''B'' @ [LF, LF] @ ''CDE'' @ [LF] @ ''F'')"
proof -
  let ?v = "''&#'' @ replicate 4301 (CHR ''1'') @ '';''"
  let ?ps = "[Plain ''A'', Tag ''br'', Plain ''B'', Tag ''/P '', Plain ''C'', Tag ''b'', Plain ''D'',
              Tag ''BR'', Plain ''E'', Tag ''br /'', Plain ''F'', Tag ''br/'']"
  have big: "max_str_digits < 4301"
    by (simp add: max_str_digits_def)
  have r: "html_to_plain_text (\<lambda>s. s) ?v = Inl ValueError"
    using big by (rule html_long_ref_raises)
  have ok: "list_all piece_ok ?ps"
    by simp
  note t = html_line_breaks [where d = "\<lambda>s. s" and v = ?v and exc = ValueError and ps = ?ps]
  have 1: "CHR ''&'' \<in> set ?v \<and> max_str_digits + 2 < length ?v"
    using t [THEN conjunct1, rule_format, OF r] by (rule conjunct2)
  have 2: "html_to_plain_text (\<lambda>s. s) (concat (map piece_src ?ps)) =
       (case unescape (\<lambda>s. s) (concat (map piece_text ?ps)) of
          Inl e \<Rightarrow> Inl e | Inr t \<Rightarrow> Inr (strip t))"
    using t [THEN conjunct2, THEN conjunct1, rule_format, OF ok] .
  have 3: "html_to_plain_text (\<lambda>s. s) ''A<br>B</P >C<b>D<BR>E<br />F<br/>'' =
       Inr (''A'' @ [LF] @ ''B'' @ [LF, LF] @ ''CDE'' @ [LF] @ ''F'')"
    using 2 by (simp add: is_close_p_def unescape_def strip_def lstrip_def rstrip_def is_space_def)
  from r 1 ok 3 show ?thesis
    by (intro conjI) (erule conjunct1 conjunct2 | assumption)+
qed

text \<open>
  Claim C5 as stated fails twice. The conversion raises: on \<open>&#\<close>, 4301 digits and
  \<open>;\<close>, \<open>html.unescape\<close> hands the digits to \<open>int\<close>, which raises \<open>ValueError\<close>.
  And the other spellings of the tag leave no line feed: \<open><BR>\<close> and \<open><br >\<close> are
  removed as tags.
\<close>

theorem html_upper_br_counterexample:
  "html_to_plain_text (\<lambda>s. s) (''&#'' @ replicate 4301 (CHR ''1'') @ '';'') = Inl ValueError
   \<and> html_to_plain_text (\<lambda>s. s) ''A<BR>B'' = Inr ''AB''
   \<and> html_to_plain_text (\<lambda>s. s) ''A<br >B'' = Inr ''AB''"
proof -
  have "max_str_digits < 4301"
    by (simp add: max_str_digits_def)
  then have "html_to_plain_text (\<lambda>s. s) (''&#'' @ replicate 4301 (CHR ''1'') @ '';'') = Inl ValueError"
    by (rule html_long_ref_raises)
  moreover have "html_to_plain_text (\<lambda>s. s) ''A<BR>B'' = Inr ''AB''"
    by (simp add: html_to_plain_text_def replace_def startswith_Cons match_close_p_def
        match_tag_def unescape_def strip_def lstrip_def rstrip_def is_space_def Let_def)
  moreover have "html_to_plain_text (\<lambda>s. s) ''A<br >B'' = Inr ''AB''"
    by (simp add: html_to_plain_text_def replace_def startswith_Cons match_close_p_def
        match_tag_def unescape_def strip_def lstrip_def rstrip_def is_space_def Let_def)
  ultimately show ?thesis
    by (intro conjI)
qed

section \<open>Properties of the Map step\<close>

lemma map_columns_confirm_defaults:
  "map_columns w st form sess = (Confirm_view samples n defaults, sess') \<Longrightarrow>
     defaults = prefill (st_environ st)"
  by (auto simp: map_columns_def Let_def split: option.splits sum.splits if_splits)

lemma map_columns_after_read:
  assumes "s_upload_path sess = Some path" and "path \<noteq> []" and "read_table w path = Inr df"
  shows "map_columns w st form sess =
     (if col_missing df (form ''email_col'') \<or> col_missing df (form ''name_col'')
      then (Redirect_index msg_select, sess)
      else
        (Confirm_view
           (map (render_sample w
                   (case s_message_template sess of None \<Rightarrow> [] | Some t \<Rightarrow> t)
                   (case s_default_subject sess of None \<Rightarrow> [] | Some t \<Rightarrow> t))
              (take 5 (map (build_record df (the (form ''email_col'')) (the (form ''name_col''))
                              (form ''subject_col'')) (df_rows df))))
           (length (df_rows df))
           (prefill (st_environ st)),
         sess \<lparr> s_mapped_records :=
                   Some (map (build_record df (the (form ''email_col'')) (the (form ''name_col''))
                                (form ''subject_col'')) (df_rows df)),
                s_email_col := form ''email_col'',
                s_name_col := form ''name_col'',
                s_subject_col := Some (get_or (form ''subject_col'') []) \<rparr>))"
  using assms by (simp add: map_columns_def Let_def)

lemma demo_read: "read_table demo_world ''uploads/lista.csv'' = Inr demo_df"
  by (simp add: read_table_def demo_world_def endswith_def startswith_def lower_def lower_char_def)

lemma demo_render:
  "w_render demo_world t nm e = (if nm = [] then Inl ''render failed'' else Inr (t @ nm))"
  by (simp add: demo_world_def)

lemma demo_map:
  "map_columns demo_world demo_store demo_form demo_session =
     (Confirm_view
        [\<lparr>smp_to = ''ana@unmsm.edu.pe'', smp_subject = ''Aviso'', smp_body = ''Hola Ana''\<rparr>,
         \<lparr>smp_to = [], smp_subject = ''Aviso'', smp_body = ''Hola Luis''\<rparr>,
         \<lparr>smp_to = ''no@unmsm.edu.pe'', smp_subject = ''Aviso'', smp_body = ''Hola Eva''\<rparr>]
        3 (prefill Map.empty),
      demo_session \<lparr> s_mapped_records := Some
         [\<lparr>rec_email = ''ana@unmsm.edu.pe'', rec_name = ''Ana'', rec_subject = None\<rparr>,
          \<lparr>rec_email = [], rec_name = ''Luis'', rec_subject = None\<rparr>,
          \<lparr>rec_email = ''no@unmsm.edu.pe'', rec_name = ''Eva'', rec_subject = None\<rparr>],
         s_email_col := Some ''mail'', s_name_col := Some ''nombre'',
         s_subject_col := Some ''asunto'' \<rparr>)"
  by (simp add: map_columns_def demo_read Let_def demo_session_def demo_form_def demo_df_def
      col_missing_def build_record_def demo_row_def strip_def lstrip_def rstrip_def is_space_def
      render_sample_def demo_render get_or_def or_else_def demo_store_def)

lemma demo_environ: "st_environ demo_store key = None"
  by (simp add: demo_store_def)

lemma map_columns_valid_columns:
  assumes "s_upload_path sess = Some path" and "path \<noteq> []" and "read_table w path = Inr df"
  shows "if (case form ''email_col'' of None \<Rightarrow> False
             | Some ec \<Rightarrow> ec \<noteq> [] \<and> ec \<in> set (df_columns df))
          \<and> (case form ''name_col'' of None \<Rightarrow> False
              | Some nc \<Rightarrow> nc \<noteq> [] \<and> nc \<in> set (df_columns df))
         then s_mapped_records (snd (map_columns w st form sess)) =
                Some (map (build_record df (the (form ''email_col'')) (the (form ''name_col''))
                             (form ''subject_col'')) (df_rows df))
              \<and> fst (map_columns w st form sess) \<noteq> Redirect_index msg_select
         else map_columns w st form sess = (Redirect_index msg_select, sess)"
  unfolding map_columns_after_read [OF assms]
  by (auto simp: col_missing_def split: option.splits)

text \<open>
  Claim C6, as amended. The columns that \<open>map_columns\<close> checks are those of the uploaded
  file as it is read again at the Map step; the list stored in the session at Prepare is
  not consulted. For every Map request: the confirm view is rendered only when the file
  could be read again and \<open>email_col\<close> and \<open>name_col\<close> are both given, non-empty and
  among the columns of that file, and then the normalized records are stored in the
  session; every other request ends in the redirect to the start and leaves the session as
  it was, so no \<open>mapped_records\<close> is created.
\<close>

theorem map_checks_reread_columns:
  "(case map_columns w st form sess of
      (Redirect_index msg, sess') \<Rightarrow> sess' = sess
    | (Confirm_view samples n defaults, sess') \<Rightarrow>
        (case s_upload_path sess of
           None \<Rightarrow> False
         | Some path \<Rightarrow>
             (case read_table w path of
                Inl exc \<Rightarrow> False
              | Inr df \<Rightarrow>
                  (case form ''email_col'' of
                     None \<Rightarrow> False
                   | Some ec \<Rightarrow> ec \<noteq> [] \<and> ec \<in> set (df_columns df))
                  \<and> (case form ''name_col'' of
                        None \<Rightarrow> False
                      | Some nc \<Rightarrow> nc \<noteq> [] \<and> nc \<in> set (df_columns df))
                  \<and> s_mapped_records sess' =
                        Some (map (build_record df (the (form ''email_col''))
                                     (the (form ''name_col'')) (form ''subject_col''))
                                (df_rows df))))
    | (Result_view results, sess') \<Rightarrow> False)"
proof (cases "s_upload_path sess")
  case None
  then show ?thesis
    by (simp add: map_columns_def)
next
  case (Some path)
  show ?thesis
  proof (cases "path = []")
    case True
    with Some show ?thesis
      by (simp add: map_columns_def)
  next
    case False
    show ?thesis
    proof (cases "read_table w path")
      case (Inl exc)
      with Some False show ?thesis
        by (simp add: map_columns_def)
    next
      case (Inr df)
      show ?thesis
        unfolding map_columns_after_read [OF Some False Inr]
        using Some Inr by (auto simp: col_missing_def split: option.splits)
    qed
  qed
qed

theorem map_checks_reread_columns_witness:
  "s_mapped_records (snd (map_columns demo_world demo_store demo_form demo_session)) =
     Some (map (build_record demo_df ''mail'' ''nombre'' (Some ''asunto'')) (df_rows demo_df))
   \<and> snd (map_columns demo_world demo_store (demo_form(''name_col'' := None)) demo_session) =
       demo_session"
proof -
  have p: "s_upload_path demo_session = Some ''uploads/lista.csv''"
    by (simp add: demo_session_def)
  have f: "demo_form ''email_col'' = Some ''mail''" "demo_form ''name_col'' = Some ''nombre''"
    "demo_form ''subject_col'' = Some ''asunto''"
    by (simp_all add: demo_form_def)
  have a: "s_mapped_records (snd (map_columns demo_world demo_store demo_form demo_session)) =
     Some (map (build_record demo_df ''mail'' ''nombre'' (Some ''asunto'')) (df_rows demo_df))"
    using map_checks_reread_columns
            [where w = demo_world and st = demo_store and form = demo_form and sess = demo_session]
    by (simp add: demo_map p demo_read f)
  have r: "map_columns demo_world demo_store (demo_form(''name_col'' := None)) demo_session =
            (Redirect_index msg_select, demo_session)"
    using map_columns_valid_columns
            [OF p _ demo_read, where form = "demo_form(''name_col'' := None)" and st = demo_store]
    by (simp add: demo_form_def)
  have b: "snd (map_columns demo_world demo_store (demo_form(''name_col'' := None)) demo_session) =
            demo_session"
    using map_checks_reread_columns
            [where w = demo_world and st = demo_store and form = "demo_form(''name_col'' := None)"
               and sess = demo_session]
    by (simp add: r)
  show ?thesis
    using a b by (rule conjI)
qed

text \<open>
  Claim C6 as stated fails: the session below stores the columns \<open>correo\<close> and
  \<open>alumno\<close> from Prepare, the file read at the Map step has \<open>mail\<close> and \<open>nombre\<close>,
  and a request that selects the latter, absent from the stored list, is mapped.
\<close>

theorem map_ignores_stored_columns_counterexample:
  "''mail'' \<notin> set (the (s_columns demo_session))
   \<and> ''nombre'' \<notin> set (the (s_columns demo_session))
   \<and> map_columns demo_world demo_store
        [''email_col'' \<mapsto> ''mail'', ''name_col'' \<mapsto> ''nombre''] demo_session =
      (Confirm_view
        [\<lparr>smp_to = ''ana@unmsm.edu.pe'', smp_subject = ''Aviso'', smp_body = ''Hola Ana''\<rparr>,
         \<lparr>smp_to = [], smp_subject = ''Aviso'', smp_body = ''Hola Luis''\<rparr>,
         \<lparr>smp_to = ''no@unmsm.edu.pe'', smp_subject = ''Aviso'', smp_body = ''Hola Eva''\<rparr>]
        3 (prefill Map.empty),
      demo_session \<lparr> s_mapped_records := Some
         [\<lparr>rec_email = ''ana@unmsm.edu.pe'', rec_name = ''Ana'', rec_subject = None\<rparr>,
          \<lparr>rec_email = [], rec_name = ''Luis'', rec_subject = None\<rparr>,
          \<lparr>rec_email = ''no@unmsm.edu.pe'', rec_name = ''Eva'', rec_subject = None\<rparr>],
         s_email_col := Some ''mail'', s_name_col := Some ''nombre'',
         s_subject_col := Some [] \<rparr>)"
  by (simp add: map_columns_def demo_read Let_def demo_session_def demo_df_def
      col_missing_def build_record_def demo_row_def strip_def lstrip_def rstrip_def is_space_def
      render_sample_def demo_render get_or_def or_else_def demo_store_def)

text \<open>
  Claim C8. Whenever \<open>map_columns\<close> renders the confirm view and
  \<open>SMTP_APP_PASSWORD\<close> is not set in the environment, the prefilled application password
  is the literal \<open>dgjr jxdm dske dxos\<close>, not the empty string; the prefilled sender name
  is the value of \<open>SMTP_FROM_NAME\<close>, or the literal \<open>Centro de Idiomas\<close> when that
  variable is not set.
\<close>

theorem confirm_prefills_literal_password:
  assumes "map_columns w st form sess = (Confirm_view samples n defaults, sess')"
      and "st_environ st ''SMTP_APP_PASSWORD'' = None"
  shows "d_smtp_app_password defaults = ''dgjr jxdm dske dxos''
         \<and> d_smtp_app_password defaults \<noteq> []
         \<and> d_from_name defaults =
             (case st_environ st ''SMTP_FROM_NAME'' of
                None \<Rightarrow> ''Centro de Idiomas'' | Some v \<Rightarrow> v)"
proof -
  have "defaults = prefill (st_environ st)"
    using assms(1) by (rule map_columns_confirm_defaults)
  then show ?thesis
    using assms(2) by (simp add: prefill_def get_env_default_def)
qed

theorem confirm_prefills_literal_password_witness:
  "(case fst (map_columns demo_world demo_store demo_form demo_session) of
      Confirm_view samples n defaults \<Rightarrow>
        d_smtp_app_password defaults = ''dgjr jxdm dske dxos''
        \<and> d_from_name defaults = ''Centro de Idiomas''
    | _ \<Rightarrow> False)"
  using confirm_prefills_literal_password [OF demo_map demo_environ]
  by (simp add: demo_map demo_environ)

text \<open>
  Claim C10. When the file is read, \<open>email_col\<close> and \<open>name_col\<close> are valid and
  \<open>subject_col\<close> names a column the file does not have, the mapping succeeds: the
  records stored in the session carry no subject, the confirm view is rendered, and the
  response is the one of the same request without \<open>subject_col\<close>, so nothing in it
  tells of the unknown column.
\<close>

theorem map_tolerates_unknown_subject_col:
  assumes "s_upload_path sess = Some path" and "path \<noteq> []" and "read_table w path = Inr df"
      and "form ''email_col'' = Some ec" and "ec \<noteq> []" and "ec \<in> set (df_columns df)"
      and "form ''name_col'' = Some nc" and "nc \<noteq> []" and "nc \<in> set (df_columns df)"
      and "form ''subject_col'' = Some sc" and "sc \<notin> set (df_columns df)"
  shows "s_mapped_records (snd (map_columns w st form sess)) =
           Some (map (\<lambda>row. \<lparr> rec_email = strip (row ec), rec_name = strip (row nc),
                               rec_subject = None \<rparr>) (df_rows df))
         \<and> fst (map_columns w st form sess) =
             Confirm_view
               (map (render_sample w
                       (case s_message_template sess of None \<Rightarrow> [] | Some t \<Rightarrow> t)
                       (case s_default_subject sess of None \<Rightarrow> [] | Some t \<Rightarrow> t))
                  (take 5 (map (\<lambda>row. \<lparr> rec_email = strip (row ec), rec_name = strip (row nc),
                                          rec_subject = None \<rparr>) (df_rows df))))
               (length (df_rows df))
               (prefill (st_environ st))
         \<and> fst (map_columns w st form sess) =
             fst (map_columns w st (form(''subject_col'' := None)) sess)"
proof -
  have b: "build_record df ec nc (Some sc) =
           (\<lambda>row. \<lparr> rec_email = strip (row ec), rec_name = strip (row nc), rec_subject = None \<rparr>)"
    using assms(11) by (simp add: build_record_def fun_eq_iff)
  have b': "build_record df ec nc None =
           (\<lambda>row. \<lparr> rec_email = strip (row ec), rec_name = strip (row nc), rec_subject = None \<rparr>)"
    by (simp add: build_record_def fun_eq_iff)
  have m: "\<not> col_missing df (Some ec)" "\<not> col_missing df (Some nc)"
    using assms by (simp_all add: col_missing_def)
  show ?thesis
    unfolding map_columns_after_read [OF assms(1-3)]
    using assms(4,7,10) m by (simp add: b b')
qed

theorem map_tolerates_unknown_subject_col_witness:
  "s_mapped_records (snd (map_columns demo_world demo_store demo_form demo_session)) =
     Some [\<lparr>rec_email = ''ana@unmsm.edu.pe'', rec_name = ''Ana'', rec_subject = None\<rparr>,
           \<lparr>rec_email = [], rec_name = ''Luis'', rec_subject = None\<rparr>,
           \<lparr>rec_email = ''no@unmsm.edu.pe'', rec_name = ''Eva'', rec_subject = None\<rparr>]
   \<and> fst (map_columns demo_world demo_store demo_form demo_session) =
       fst (map_columns demo_world demo_store (demo_form(''subject_col'' := None)) demo_session)"
proof -
  have p: "s_upload_path demo_session = Some ''uploads/lista.csv''"
    by (simp add: demo_session_def)
  have q: "''uploads/lista.csv'' \<noteq> []"
    by simp
  have e: "demo_form ''email_col'' = Some ''mail''" "''mail'' \<noteq> []"
          "''mail'' \<in> set (df_columns demo_df)"
    and n: "demo_form ''name_col'' = Some ''nombre''" "''nombre'' \<noteq> []"
           "''nombre'' \<in> set (df_columns demo_df)"
    and s: "demo_form ''subject_col'' = Some ''asunto''" "''asunto'' \<notin> set (df_columns demo_df)"
    by (simp_all add: demo_form_def demo_df_def)
  note t = map_tolerates_unknown_subject_col [OF p q demo_read e n s, of demo_store]
  have a: "s_mapped_records (snd (map_columns demo_world demo_store demo_form demo_session)) =
     Some [\<lparr>rec_email = ''ana@unmsm.edu.pe'', rec_name = ''Ana'', rec_subject = None\<rparr>,
           \<lparr>rec_email = [], rec_name = ''Luis'', rec_subject = None\<rparr>,
           \<lparr>rec_email = ''no@unmsm.edu.pe'', rec_name = ''Eva'', rec_subject = None\<rparr>]"
    using t [THEN conjunct1]
    by (simp add: demo_df_def demo_row_def strip_def lstrip_def rstrip_def is_space_def)
  have b: "fst (map_columns demo_world demo_store demo_form demo_session) =
       fst (map_columns demo_world demo_store (demo_form(''subject_col'' := None)) demo_session)"
    using t [THEN conjunct2, THEN conjunct2] .
  show ?thesis
    using a b by (rule conjI)
qed

section \<open>Properties of the Send step\<close>

lemma send_loop_Cons:
  "fst (send_loop w ctx i srv (r # rs)) =
     fst (send_one w ctx i srv r)
       # fst (send_loop w ctx (Suc i) (snd (snd (send_one w ctx i srv r))) rs)"
  "fst (snd (send_loop w ctx i srv (r # rs))) =
     fst (snd (send_one w ctx i srv r))
       @ fst (snd (send_loop w ctx (Suc i) (snd (snd (send_one w ctx i srv r))) rs))"
  "snd (snd (send_loop w ctx i srv (r # rs))) =
     snd (snd (send_loop w ctx (Suc i) (snd (snd (send_one w ctx i srv r))) rs))"
  by (simp_all split: prod.splits)

lemma send_one_events_idx:
  "e \<in> set (fst (snd (send_one w ctx i srv r))) \<Longrightarrow> event_idx e = i"
  by (auto simp: send_one_def Let_def split: sum.splits prod.splits option.splits if_splits)

lemma send_one_to: "res_to (fst (send_one w ctx i srv r)) = strip (rec_email r)"
  by (auto simp: send_one_def Let_def error_result_def sent_result_def
      split: sum.splits prod.splits option.splits)

lemma send_one_result:
  "fst (send_one w ctx i srv r) =
     (let to_addr = strip (rec_email r)
      in if to_addr = []
         then \<lparr> res_to = [], res_status = ''error'', res_detail = msg_empty_email \<rparr>
         else
           (case w_render w (c_message_template ctx) (rec_name r) to_addr of
              Inl exc \<Rightarrow> \<lparr> res_to = to_addr, res_status = ''error'', res_detail = exc \<rparr>
            | Inr body \<Rightarrow>
                (case fst (w_sendmail w srv (build_message ctx r to_addr body)) of
                   Some exc \<Rightarrow> \<lparr> res_to = to_addr, res_status = ''error'', res_detail = exc \<rparr>
                 | None \<Rightarrow> \<lparr> res_to = to_addr, res_status = ''enviado'', res_detail = [] \<rparr>)))"
  by (auto simp: send_one_def Let_def error_result_def sent_result_def
      split: sum.splits prod.splits option.splits)

lemma send_one_skips_empty:
  "strip (rec_email r) = [] \<Longrightarrow> fst (snd (send_one w ctx i srv r)) = []"
  by (simp add: send_one_def)



lemma send_one_sendmail:
  "Sendmail j m \<in> set (fst (snd (send_one w ctx i srv r))) \<Longrightarrow>
     msg_subject m = subject_of ctx r \<and> msg_to m = strip (rec_email r)"
  by (auto simp: send_one_def Let_def build_message_def
      split: sum.splits prod.splits option.splits if_splits)

lemma send_loop_length:
  "length (fst (send_loop w ctx i srv rs)) = length rs"
  by (induction rs arbitrary: i srv) (simp_all add: send_loop_Cons del: send_loop.simps(2))

lemma send_loop_to:
  "map res_to (fst (send_loop w ctx i srv rs)) = map (\<lambda>r. strip (rec_email r)) rs"
  by (induction rs arbitrary: i srv)
     (simp_all add: send_loop_Cons send_one_to del: send_loop.simps(2))

lemma send_loop_events_idx:
  "e \<in> set (fst (snd (send_loop w ctx i srv rs))) \<Longrightarrow>
     i \<le> event_idx e \<and> event_idx e < i + length rs"
proof (induction rs arbitrary: i srv)
  case Nil
  then show ?case by simp
next
  case (Cons r rs)
  let ?srv1 = "snd (snd (send_one w ctx i srv r))"
  from Cons.prems
  have "e \<in> set (fst (snd (send_one w ctx i srv r)))
        \<or> e \<in> set (fst (snd (send_loop w ctx (Suc i) ?srv1 rs)))"
    by (simp add: send_loop_Cons del: send_loop.simps(2))
  then show ?case
  proof
    assume "e \<in> set (fst (snd (send_one w ctx i srv r)))"
    then have "event_idx e = i"
      by (rule send_one_events_idx)
    then show ?thesis by simp
  next
    assume "e \<in> set (fst (snd (send_loop w ctx (Suc i) ?srv1 rs)))"
    then have "Suc i \<le> event_idx e \<and> event_idx e < Suc i + length rs"
      by (rule Cons.IH)
    then show ?thesis by simp
  qed
qed

lemma send_loop_nth:
  "k < length rs \<Longrightarrow>
     fst (send_loop w ctx i srv rs) ! k =
       fst (send_one w ctx (i + k) (snd (snd (send_loop w ctx i srv (take k rs)))) (rs ! k))"
proof (induction rs arbitrary: i srv k)
  case Nil
  then show ?case by simp
next
  case (Cons r rs)
  show ?case
  proof (cases k)
    case 0
    then show ?thesis
      by (simp add: send_loop_Cons del: send_loop.simps(2))
  next
    case (Suc j)
    with Cons.prems have "j < length rs" by simp
    from Cons.IH [OF this, of "Suc i" "snd (snd (send_one w ctx i srv r))"] show ?thesis
      using Suc by (simp add: send_loop_Cons del: send_loop.simps(2))
  qed
qed

lemma send_loop_events_nth:
  "k < length rs \<Longrightarrow>
     filter (\<lambda>e. event_idx e = i + k) (fst (snd (send_loop w ctx i srv rs))) =
       fst (snd (send_one w ctx (i + k) (snd (snd (send_loop w ctx i srv (take k rs)))) (rs ! k)))"
proof (induction rs arbitrary: i srv k)
  case Nil
  then show ?case by simp
next
  case (Cons r rs)
  let ?evs = "fst (snd (send_one w ctx i srv r))"
  let ?srv1 = "snd (snd (send_one w ctx i srv r))"
  let ?tr = "fst (snd (send_loop w ctx (Suc i) ?srv1 rs))"
  have evs: "\<forall>e \<in> set ?evs. event_idx e = i"
    by (auto dest: send_one_events_idx)
  have tr: "\<forall>e \<in> set ?tr. Suc i \<le> event_idx e"
    by (auto dest: send_loop_events_idx)
  show ?case
  proof (cases k)
    case 0
    have "filter (\<lambda>e. event_idx e = i) ?evs = ?evs"
      using evs by (simp add: filter_id_conv)
    moreover have "filter (\<lambda>e. event_idx e = i) ?tr = []"
      using tr by (auto simp: filter_empty_conv)
    ultimately show ?thesis
      using 0 by (simp add: send_loop_Cons del: send_loop.simps(2))
  next
    case (Suc j)
    with Cons.prems have j: "j < length rs" by simp
    have "filter (\<lambda>e. event_idx e = i + k) ?evs = []"
      using evs Suc by (auto simp: filter_empty_conv)
    moreover have "filter (\<lambda>e. event_idx e = i + k) ?tr =
        fst (snd (send_one w ctx (Suc i + j) (snd (snd (send_loop w ctx (Suc i) ?srv1 (take j rs)))) (rs ! j)))"
      using Cons.IH [OF j, of "Suc i" ?srv1] Suc by simp
    ultimately show ?thesis
      using Suc by (simp add: send_loop_Cons del: send_loop.simps(2))
  qed
qed

lemma send_loop_sendmail:
  assumes "Sendmail j m \<in> set (fst (snd (send_loop w ctx i srv rs)))"
  shows "i \<le> j \<and> j < i + length rs
         \<and> msg_subject m = subject_of ctx (rs ! (j - i))
         \<and> msg_to m = strip (rec_email (rs ! (j - i)))"
proof -
  have b: "i \<le> j \<and> j < i + length rs"
    using send_loop_events_idx [OF assms] by simp
  then have k: "j - i < length rs" and j: "i + (j - i) = j"
    by arith+
  have "Sendmail j m \<in> set (filter (\<lambda>e. event_idx e = i + (j - i)) (fst (snd (send_loop w ctx i srv rs))))"
    using assms j by simp
  then have "Sendmail j m \<in> set (fst (snd (send_one w ctx (i + (j - i))
                 (snd (snd (send_loop w ctx i srv (take (j - i) rs)))) (rs ! (j - i)))))"
    unfolding send_loop_events_nth [OF k] .
  then have "msg_subject m = subject_of ctx (rs ! (j - i))
             \<and> msg_to m = strip (rec_email (rs ! (j - i)))"
    by (rule send_one_sendmail)
  with b show ?thesis
    by simp
qed

lemma demo_sendmail:
  "w_sendmail demo_world srv msg =
     (if msg_to msg = ''no@unmsm.edu.pe'' then (Some ''refused'', Suc srv) else (None, Suc srv))"
  by (simp add: demo_world_def)

lemma demo_loop:
  "send_loop demo_world demo_ctx 1 0 demo_records =
     ([\<lparr>res_to = ''ana@unmsm.edu.pe'', res_status = ''enviado'', res_detail = []\<rparr>,
       \<lparr>res_to = [], res_status = ''error'', res_detail = msg_empty_email\<rparr>,
       \<lparr>res_to = ''no@unmsm.edu.pe'', res_status = ''error'', res_detail = ''refused''\<rparr>,
       \<lparr>res_to = ''leo@unmsm.edu.pe'', res_status = ''error'', res_detail = ''render failed''\<rparr>,
       \<lparr>res_to = ''eli@unmsm.edu.pe'', res_status = ''enviado'', res_detail = []\<rparr>],
      [Sendmail 1
         \<lparr>msg_to = ''ana@unmsm.edu.pe'', msg_subject = ''Notas'',
            msg_from_name = ''Centro de Idiomas'', msg_from_addr = ''idiomas@unmsm.edu.pe'',
            msg_body = ''Hola Ana'', msg_parts = []\<rparr>,
       Sleep_ms 1 500,
       Sendmail 3
         \<lparr>msg_to = ''no@unmsm.edu.pe'', msg_subject = ''Comunicado'',
            msg_from_name = ''Centro de Idiomas'', msg_from_addr = ''idiomas@unmsm.edu.pe'',
            msg_body = ''Hola Eva'', msg_parts = []\<rparr>,
       Sendmail 5
         \<lparr>msg_to = ''eli@unmsm.edu.pe'', msg_subject = ''Comunicado'',
            msg_from_name = ''Centro de Idiomas'', msg_from_addr = ''idiomas@unmsm.edu.pe'',
            msg_body = ''Hola Eli'', msg_parts = []\<rparr>,
       Sleep_ms 5 500],
      3)"
  by (simp add: demo_records_def send_one_def demo_ctx_def demo_render demo_sendmail Let_def
      strip_def lstrip_def rstrip_def is_space_def error_result_def sent_result_def
      build_message_def subject_of_def get_or_def or_else_def pdf_parts_def)

text \<open>
  Claim C1. A run of the dispatch loop over \<open>records\<close> returns one result per record,
  in the order of the records. The result of the record at position \<open>k\<close> is an error
  with the detail \<open>msg_empty_email\<close> when its address is empty, an error with the text of
  the exception when the rendering raises or when the send raises, and \<open>enviado\<close>
  otherwise, whatever happened to the records before it: the state of the connection it
  meets is the one the loop reaches over the first \<open>k\<close> records. A record with an empty
  address leaves no effect at all in the trace, so no send is attempted for it.
\<close>

theorem dispatch_one_result_per_recipient:
  assumes run: "send_loop w ctx idx srv records = (results, trace, srv')"
  shows "length results = length records
    \<and> map res_to results = map (\<lambda>r. strip (rec_email r)) records
    \<and> (\<forall>k < length records.
          results ! k =
            (let r = records ! k;
                 to_addr = strip (rec_email r);
                 server = snd (snd (send_loop w ctx idx srv (take k records)))
             in if to_addr = []
                then \<lparr> res_to = [], res_status = ''error'', res_detail = msg_empty_email \<rparr>
                else
                  (case w_render w (c_message_template ctx) (rec_name r) to_addr of
                     Inl exc \<Rightarrow> \<lparr> res_to = to_addr, res_status = ''error'', res_detail = exc \<rparr>
                   | Inr body \<Rightarrow>
                       (case fst (w_sendmail w server (build_message ctx r to_addr body)) of
                          Some exc \<Rightarrow>
                            \<lparr> res_to = to_addr, res_status = ''error'', res_detail = exc \<rparr>
                        | None \<Rightarrow>
                            \<lparr> res_to = to_addr, res_status = ''enviado'', res_detail = [] \<rparr>))))
    \<and> (\<forall>k < length records.
          strip (rec_email (records ! k)) = [] \<longrightarrow>
            (\<forall>e \<in> set trace. event_idx e \<noteq> idx + k))"
proof -
  have results: "results = fst (send_loop w ctx idx srv records)"
    and trace: "trace = fst (snd (send_loop w ctx idx srv records))"
    using run by simp_all
  have len: "length results = length records"
    unfolding results by (rule send_loop_length)
  have order: "map res_to results = map (\<lambda>r. strip (rec_email r)) records"
    unfolding results by (rule send_loop_to)
  have each: "results ! k =
      (let r = records ! k;
           to_addr = strip (rec_email r);
           server = snd (snd (send_loop w ctx idx srv (take k records)))
       in if to_addr = []
          then \<lparr> res_to = [], res_status = ''error'', res_detail = msg_empty_email \<rparr>
          else
            (case w_render w (c_message_template ctx) (rec_name r) to_addr of
               Inl exc \<Rightarrow> \<lparr> res_to = to_addr, res_status = ''error'', res_detail = exc \<rparr>
             | Inr body \<Rightarrow>
                 (case fst (w_sendmail w server (build_message ctx r to_addr body)) of
                    Some exc \<Rightarrow>
                      \<lparr> res_to = to_addr, res_status = ''error'', res_detail = exc \<rparr>
                  | None \<Rightarrow>
                      \<lparr> res_to = to_addr, res_status = ''enviado'', res_detail = [] \<rparr>)))"
    if "k < length records" for k
    unfolding results send_loop_nth [OF that] send_one_result by (simp add: Let_def)
  have skipped: "\<forall>e \<in> set trace. event_idx e \<noteq> idx + k"
    if k: "k < length records" and empty: "strip (rec_email (records ! k)) = []" for k
  proof -
    have "filter (\<lambda>e. event_idx e = idx + k) trace = []"
      unfolding trace send_loop_events_nth [OF k] using empty by (rule send_one_skips_empty)
    then show ?thesis
      by (simp add: filter_empty_conv)
  qed
  show ?thesis
    using len order each skipped by blast
qed

theorem dispatch_one_result_per_recipient_witness:
  "length (fst (send_loop demo_world demo_ctx 1 0 demo_records)) = length demo_records
   \<and> fst (send_loop demo_world demo_ctx 1 0 demo_records) ! 1 =
       \<lparr>res_to = [], res_status = ''error'', res_detail = msg_empty_email\<rparr>
   \<and> fst (send_loop demo_world demo_ctx 1 0 demo_records) ! 3 =
       \<lparr>res_to = ''leo@unmsm.edu.pe'', res_status = ''error'', res_detail = ''render failed''\<rparr>
   \<and> fst (send_loop demo_world demo_ctx 1 0 demo_records) ! 4 =
       \<lparr>res_to = ''eli@unmsm.edu.pe'', res_status = ''enviado'', res_detail = []\<rparr>
   \<and> list_all (\<lambda>e. event_idx e \<noteq> 2) (fst (snd (send_loop demo_world demo_ctx 1 0 demo_records)))"
proof -
  note t = dispatch_one_result_per_recipient [OF demo_loop]
  have k: "(1::nat) < length demo_records" and e: "strip (rec_email (demo_records ! 1)) = []"
    by (simp_all add: demo_records_def strip_def lstrip_def rstrip_def)
  show ?thesis
    using t [THEN conjunct1]
      t [THEN conjunct2, THEN conjunct2, THEN conjunct2, rule_format, OF k e]
    unfolding demo_loop by (simp add: demo_records_def)
qed






lemma send_emails_trace:
  assumes "send_emails w st form files sess = (outcome, trace, st')" and "e \<in> set trace"
  shows "\<exists>ctx server.
           trace = fst (snd (send_loop w ctx 1 server (the (s_mapped_records sess))))
           \<and> c_default_subject ctx = (case s_default_subject sess of None \<Rightarrow> [] | Some t \<Rightarrow> t)"
proof -
  let ?ctx = "\<lparr> c_message_template = (case s_message_template sess of None \<Rightarrow> [] | Some t \<Rightarrow> t),
                 c_default_subject = (case s_default_subject sess of None \<Rightarrow> [] | Some t \<Rightarrow> t),
                 c_signature_text = load_signature w,
                 c_from_name = or_else (strip (form_get form ''from_name'' [])) ''Centro de Idiomas'',
                 c_smtp_email = strip (form_get form ''smtp_email'' []),
                 c_attachments = collect_attachments w files \<rparr>"
  let ?server = "projr (w_connect w
                   (or_else (strip (form_get form ''smtp_host'' ''smtp.gmail.com'')) ''smtp.gmail.com'')
                   (projr (py_int (form_get form ''smtp_port'' ''587'')))
                   (strip (form_get form ''smtp_email'' []))
                   (strip (form_get form ''smtp_app_password'' [])))"
  have "trace = fst (snd (send_loop w ?ctx 1 ?server (the (s_mapped_records sess))))"
    using assms
    by (auto simp: send_emails_def Let_def split: option.splits sum.splits if_splits prod.splits)
  moreover have "c_default_subject ?ctx = (case s_default_subject sess of None \<Rightarrow> [] | Some t \<Rightarrow> t)"
    by simp
  ultimately show ?thesis
    by blast
qed

lemma strip_plain [simp]:
  "strip ''idiomas@unmsm.edu.pe'' = ''idiomas@unmsm.edu.pe''"
  "strip ''secret'' = ''secret''"
  "strip ''smtp.gmail.com'' = ''smtp.gmail.com''"
  "strip [] = []"
  by (simp_all add: strip_def lstrip_def rstrip_def is_space_def)

lemma py_int_587: "py_int ''587'' = Inr 587"
  by (simp add: py_int_def is_int_space_def startswith_def is_digit_def digits_value_def
      max_str_digits_def Let_def)

lemma py_int_abc: "py_int ''abc'' = Inl ValueError"
  by (simp add: py_int_def is_int_space_def startswith_def is_digit_def Let_def)

lemma fallback_signature_nonempty: "fallback_signature \<noteq> []"
  by (simp add: fallback_signature_def)

lemma demo_send:
  "send_emails demo_world demo_store demo_send_form demo_files demo_mapped =
     (Inr (Result_view (fst (send_loop demo_world demo_send_ctx 1 0 demo_records))),
      fst (snd (send_loop demo_world demo_send_ctx 1 0 demo_records)),
      demo_store)"
proof -
  have r: "s_mapped_records demo_mapped = Some demo_records" "demo_records \<noteq> []"
    "s_message_template demo_mapped = Some ''Hola ''" "s_default_subject demo_mapped = Some ''Aviso''"
    by (simp_all add: demo_mapped_def demo_session_def demo_records_def)
  have f: "form_get demo_send_form ''smtp_email'' [] = ''idiomas@unmsm.edu.pe''"
    "form_get demo_send_form ''smtp_app_password'' [] = ''secret''"
    "form_get demo_send_form ''from_name'' [] = []"
    "form_get demo_send_form ''smtp_host'' ''smtp.gmail.com'' = ''smtp.gmail.com''"
    "form_get demo_send_form ''smtp_port'' ''587'' = ''587''"
    "demo_send_form ''remember_credentials'' = None"
    by (simp_all add: form_get_def demo_send_form_def)
  have w: "load_signature demo_world = fallback_signature"
    "collect_attachments demo_world demo_files = []"
    "w_connect demo_world h p a b = Inr 0" for h p a b
    by (simp_all add: load_signature_def collect_attachments_def demo_world_def demo_files_def)
  show ?thesis
    by (simp add: send_emails_def r f w py_int_587 or_else_def demo_send_ctx_def Let_def
        split: prod.splits)
qed

lemma demo_send_messages:
  "Sendmail 1
     \<lparr> msg_to = ''ana@unmsm.edu.pe'', msg_subject = ''Notas'',
       msg_from_name = ''Centro de Idiomas'', msg_from_addr = ''idiomas@unmsm.edu.pe'',
       msg_body = ''Hola Ana'' @ [LF, LF] @ fallback_signature, msg_parts = [] \<rparr>
   \<in> set (fst (snd (send_loop demo_world demo_send_ctx 1 0 demo_records)))"
  "Sendmail 3
     \<lparr> msg_to = ''no@unmsm.edu.pe'', msg_subject = ''Aviso'',
       msg_from_name = ''Centro de Idiomas'', msg_from_addr = ''idiomas@unmsm.edu.pe'',
       msg_body = ''Hola Eva'' @ [LF, LF] @ fallback_signature, msg_parts = [] \<rparr>
   \<in> set (fst (snd (send_loop demo_world demo_send_ctx 1 0 demo_records)))"
  by (simp_all add: demo_records_def send_one_def demo_send_ctx_def demo_render demo_sendmail
      Let_def strip_def lstrip_def rstrip_def is_space_def error_result_def sent_result_def
      build_message_def subject_of_def get_or_def or_else_def pdf_parts_def
      fallback_signature_nonempty)

lemma demo_send_trace:
  "fst (snd (send_emails demo_world demo_store demo_send_form demo_files demo_mapped)) =
     fst (snd (send_loop demo_world demo_send_ctx 1 0 demo_records))"
  by (simp add: demo_send)

text \<open>
  Claim C7, as amended. Every message that \<open>send_emails\<close> sends belongs to one of the
  mapped recipients, and its subject is the subject of that recipient when the recipient
  has one that is not empty, else the \<open>default_subject\<close> of the session when it is set
  and not empty, else the literal \<open>Comunicado\<close>.
\<close>

theorem subject_fallback_chain:
  assumes "send_emails w st form files sess = (outcome, trace, st')"
      and "Sendmail i m \<in> set trace"
  shows "1 \<le> i \<and> i \<le> length (the (s_mapped_records sess))
    \<and> (let r = the (s_mapped_records sess) ! (i - 1);
            fallback = (case s_default_subject sess of
                          None \<Rightarrow> ''Comunicado''
                        | Some d \<Rightarrow> if d \<noteq> [] then d else ''Comunicado'')
        in msg_to m = strip (rec_email r)
           \<and> msg_subject m =
               (case rec_subject r of
                  None \<Rightarrow> fallback
                | Some s \<Rightarrow> if s \<noteq> [] then s else fallback))"
proof -
  obtain ctx server where
    tr: "trace = fst (snd (send_loop w ctx 1 server (the (s_mapped_records sess))))"
    and d: "c_default_subject ctx = (case s_default_subject sess of None \<Rightarrow> [] | Some t \<Rightarrow> t)"
    using send_emails_trace [OF assms] by blast
  have "1 \<le> i \<and> i < 1 + length (the (s_mapped_records sess))
        \<and> msg_subject m = subject_of ctx (the (s_mapped_records sess) ! (i - 1))
        \<and> msg_to m = strip (rec_email (the (s_mapped_records sess) ! (i - 1)))"
    using assms(2) unfolding tr by (rule send_loop_sendmail)
  then show ?thesis
    using d by (auto simp: subject_of_def get_or_def or_else_def Let_def split: option.splits)
qed

theorem subject_fallback_chain_witness:
  "Sendmail 1
     \<lparr> msg_to = ''ana@unmsm.edu.pe'', msg_subject = ''Notas'',
       msg_from_name = ''Centro de Idiomas'', msg_from_addr = ''idiomas@unmsm.edu.pe'',
       msg_body = ''Hola Ana'' @ [LF, LF] @ fallback_signature, msg_parts = [] \<rparr>
     \<in> set (fst (snd (send_emails demo_world demo_store demo_send_form demo_files demo_mapped)))
   \<and> rec_subject (the (s_mapped_records demo_mapped) ! 0) = Some ''Notas''"
proof -
  have a: "Sendmail 1
     \<lparr> msg_to = ''ana@unmsm.edu.pe'', msg_subject = ''Notas'',
       msg_from_name = ''Centro de Idiomas'', msg_from_addr = ''idiomas@unmsm.edu.pe'',
       msg_body = ''Hola Ana'' @ [LF, LF] @ fallback_signature, msg_parts = [] \<rparr>
     \<in> set (fst (snd (send_emails demo_world demo_store demo_send_form demo_files demo_mapped)))"
    unfolding demo_send_trace by (rule demo_send_messages(1))
  have b: "rec_subject (the (s_mapped_records demo_mapped) ! 0) = Some ''Notas''"
    by (simp add: demo_mapped_def demo_session_def demo_records_def)
  show ?thesis
    using subject_fallback_chain [OF demo_send demo_send_messages(1)] a b
    by blast
qed

text \<open>
  Claim C7 as stated fails for a subject that is present and empty. The Map step stores
  the subject of a row whose subject cell is blank as the empty string; the third mapped
  recipient below has that subject, and its message goes out with the default subject of
  the session, \<open>Aviso\<close>, not with the recipient's own.
\<close>

theorem subject_empty_field_counterexample:
  "build_record \<lparr> df_columns = [''mail'', ''nombre'', ''asunto''], df_rows = [] \<rparr>
     ''mail'' ''nombre'' (Some ''asunto'')
     (\<lambda>c. if c = ''mail'' then ''no@unmsm.edu.pe'' else if c = ''nombre'' then ''Eva'' else ''  '')
     = \<lparr> rec_email = ''no@unmsm.edu.pe'', rec_name = ''Eva'', rec_subject = Some [] \<rparr>
   \<and> the (s_mapped_records demo_mapped) ! 2 =
       \<lparr> rec_email = ''no@unmsm.edu.pe'', rec_name = ''Eva'', rec_subject = Some [] \<rparr>
   \<and> s_default_subject demo_mapped = Some ''Aviso''
   \<and> Sendmail 3
       \<lparr> msg_to = ''no@unmsm.edu.pe'', msg_subject = ''Aviso'',
         msg_from_name = ''Centro de Idiomas'', msg_from_addr = ''idiomas@unmsm.edu.pe'',
         msg_body = ''Hola Eva'' @ [LF, LF] @ fallback_signature, msg_parts = [] \<rparr>
       \<in> set (fst (snd (send_emails demo_world demo_store demo_send_form demo_files
                            demo_mapped)))"
proof -
  have a: "build_record \<lparr> df_columns = [''mail'', ''nombre'', ''asunto''], df_rows = [] \<rparr>
     ''mail'' ''nombre'' (Some ''asunto'')
     (\<lambda>c. if c = ''mail'' then ''no@unmsm.edu.pe'' else if c = ''nombre'' then ''Eva'' else ''  '')
     = \<lparr> rec_email = ''no@unmsm.edu.pe'', rec_name = ''Eva'', rec_subject = Some [] \<rparr>"
    by (simp add: build_record_def strip_def lstrip_def rstrip_def is_space_def)
  have b: "the (s_mapped_records demo_mapped) ! 2 =
       \<lparr> rec_email = ''no@unmsm.edu.pe'', rec_name = ''Eva'', rec_subject = Some [] \<rparr>"
    and c: "s_default_subject demo_mapped = Some ''Aviso''"
    by (simp_all add: demo_mapped_def demo_session_def demo_records_def)
  have d: "Sendmail 3
       \<lparr> msg_to = ''no@unmsm.edu.pe'', msg_subject = ''Aviso'',
         msg_from_name = ''Centro de Idiomas'', msg_from_addr = ''idiomas@unmsm.edu.pe'',
         msg_body = ''Hola Eva'' @ [LF, LF] @ fallback_signature, msg_parts = [] \<rparr>
       \<in> set (fst (snd (send_emails demo_world demo_store demo_send_form demo_files
                            demo_mapped)))"
    unfolding demo_send_trace by (rule demo_send_messages(2))
  show ?thesis
    using a b c d by blast
qed

text \<open>
  Claim C3. The field \<open>smtp_port\<close> is parsed by \<open>int\<close> outside every \<open>try\<close>: on a
  Send request with recipients whose \<open>smtp_port\<close> is \<open>abc\<close>, \<open>ValueError\<close> leaves the
  handler, before any message is sent and with the stored credentials as they were.
\<close>

theorem send_raises_on_bad_port:
  "send_emails demo_world demo_store (demo_send_form(''smtp_port'' \<mapsto> ''abc'')) demo_files
     demo_mapped = (Inl ValueError, [], demo_store)"
proof -
  have r: "s_mapped_records demo_mapped = Some demo_records" "demo_records \<noteq> []"
    by (simp_all add: demo_mapped_def demo_session_def demo_records_def)
  have f: "form_get (demo_send_form(''smtp_port'' \<mapsto> ''abc'')) ''smtp_port'' ''587'' = ''abc''"
    by (simp add: form_get_def)
  show ?thesis
    by (simp add: send_emails_def r f py_int_abc Let_def)
qed

end
